theory Spec2Isabelle
  imports Complex_Main "HOL-Library.Sublist"
begin

section \<open>Python values\<close>

text \<open>
  A Python \<open>str\<close> is a sequence of Unicode code points, and \<open>len\<close> counts code points.
  It is modelled as a list of code points, so that the length bound of a script counts
  what pydantic counts and the check mark and the arrow of the response texts are one
  element each. \<open>str\<close> turns an ASCII literal into such a list.
\<close>

type_synonym pystr = "nat list"

definition str :: "string \<Rightarrow> pystr" where
  "str s = map of_char s"

text \<open>
  \<open>str.lower()\<close>, on the letters A to Z. Every keyword this program compares a lowered
  text with (\<open>not found\<close>, \<open>syntax\<close>, \<open>license\<close>, \<open>permission\<close>, \<open>csv\<close>, \<open>xlsx\<close>,
  \<open>.fsm\<close>, \<open>.fsx\<close>) is ASCII; lowering of letters beyond ASCII is left out.
\<close>

definition lower_cp :: "nat \<Rightarrow> nat" where
  "lower_cp c = (if 65 \<le> c \<and> c \<le> 90 then c + 32 else c)"

definition lower :: "pystr \<Rightarrow> pystr" where
  "lower s = map lower_cp s"

text \<open>The check mark U+2713, the arrow U+2192 and the newline of the response texts.\<close>

definition check_mark :: pystr where
  "check_mark = [0x2713]"

definition arrow :: pystr where
  "arrow = [0x2192]"

definition newline :: pystr where
  "newline = [10]"

text \<open>
  A Python \<open>float\<close> is a binary64 number; every finite one is a rational, and the model
  holds that rational. Comparisons of floats are exact. A division or subtraction of
  two floats is the exact result rounded to the nearest float; the rounding is the
  parameter \<open>fl\<close> of the functions below.
\<close>

type_synonym pyfloat = rat

subsection \<open>The format specification \<open>.2f\<close>\<close>

definition digit_cp :: "nat \<Rightarrow> nat" where
  "digit_cp d = 48 + d"

fun str_nat :: "nat \<Rightarrow> pystr" where
  "str_nat n = (if n < 10 then [digit_cp n] else str_nat (n div 10) @ [digit_cp (n mod 10)])"

declare str_nat.simps [simp del]

text \<open>
  \<open>f"{x:.2f}"\<close> renders the exact value of the float, correctly rounded to two decimals
  with ties going to the even neighbour, with a minus sign for a negative value.
\<close>

definition round_half_even :: "rat \<Rightarrow> int" where
  "round_half_even x =
     (let f = \<lfloor>x\<rfloor>; d = x - of_int f
      in if d < 1 / 2 then f else if 1 / 2 < d then f + 1 else if even f then f else f + 1)"

definition cents :: "pyfloat \<Rightarrow> nat" where
  "cents x = nat (round_half_even (\<bar>x\<bar> * 100))"

definition fmt2 :: "pyfloat \<Rightarrow> pystr" where
  "fmt2 x =
     (let n = cents x
      in (if x < 0 then str ''-'' else []) @ str_nat (n div 100) @ str ''.''
           @ [digit_cp (n mod 100 div 10), digit_cp (n mod 10)])"

section \<open>Helper functions of the server\<close>

text \<open>\<open>format_time\<close> of \<open>flexsim_mcp.py\<close>.\<close>

definition format_time :: "(rat \<Rightarrow> pyfloat) \<Rightarrow> pyfloat \<Rightarrow> pystr" where
  "format_time fl seconds =
     (if seconds < 60 then fmt2 seconds @ str ''s''
      else if seconds < 3600 then fmt2 (fl (seconds / 60)) @ str ''m''
      else fmt2 (fl (seconds / 3600)) @ str ''h'')"

text \<open>
  An exception caught by \<open>except Exception\<close>: its class and the text \<open>str(e)\<close>.
  \<open>EngineError\<close> stands for whatever class the engine binding raises.
\<close>

datatype exn_class = RuntimeError | FileNotFoundError | EngineError

datatype exn = Exn exn_class pystr

fun message :: "exn \<Rightarrow> pystr" where
  "message (Exn c msg) = msg"

text \<open>\<open>format_error\<close> of \<open>flexsim_mcp.py\<close>; Python's \<open>in\<close> on strings is \<open>sublist\<close>.\<close>

definition format_error :: "exn \<Rightarrow> pystr" where
  "format_error e =
     (let msg = message e
      in if sublist (str ''not found'') (lower msg) then str ''Not found: '' @ msg
         else if sublist (str ''syntax'') (lower msg) then str ''FlexScript syntax error: '' @ msg
         else if sublist (str ''license'') (lower msg) then str ''License error: '' @ msg
         else if sublist (str ''permission'') (lower msg) then str ''Permission denied: '' @ msg
         else str ''Error: '' @ msg)"

section \<open>The engine and the session\<close>

text \<open>
  The calls the server issues to the engine binding: \<open>FlexSimPy.launch\<close> and the methods
  of the controller it returns.
\<close>

datatype call =
    Launch pystr
  | Open pystr
  | Reset
  | Run
  | RunToTime pyfloat
  | Stop
  | Time
  | Evaluate pystr

text \<open>
  The engine is closed source. It is modelled by what the server can observe of it: the
  outcome of each call, which may depend on every call issued before. The argument of a
  reply function is the history of calls, the current call last. The other parts of the
  environment are the configuration (\<open>install_path\<close>, \<open>alternative_paths\<close>), whether the
  import of \<open>FlexSimPy\<close> succeeded, \<open>pathlib\<close> on the file system of the host (\<open>exists\<close>,
  \<open>suffix\<close>, \<open>stem\<close>, \<open>resolve\<close>) and the float primitives (rounding to the nearest
  float, \<open>str\<close> of a float).
\<close>

record env =
  cmd_reply :: "call list \<Rightarrow> exn option"
  time_reply :: "call list \<Rightarrow> exn + pyfloat"
  eval_reply :: "call list \<Rightarrow> exn + pystr"
  module_loaded :: bool
  install_path :: pystr
  alternative_paths :: "pystr list"
  path_exists :: "pystr \<Rightarrow> bool"
  path_suffix :: "pystr \<Rightarrow> pystr"
  path_stem :: "pystr \<Rightarrow> pystr"
  path_resolve :: "pystr \<Rightarrow> pystr"
  float_round :: "rat \<Rightarrow> pyfloat"
  float_str :: "pyfloat \<Rightarrow> pystr"

text \<open>
  The global state of the server: \<open>_controller\<close> (a handle, or \<open>None\<close>) and, for the
  claims about what is issued to the engine, the calls issued so far.
\<close>

record session =
  controller :: "nat option"
  log :: "call list"

type_synonym 'a action = "session \<Rightarrow> (exn + 'a) \<times> session"

definition return :: "'a \<Rightarrow> 'a action" where
  "return x s = (Inr x, s)"

definition bind :: "'a action \<Rightarrow> ('a \<Rightarrow> 'b action) \<Rightarrow> 'b action" where
  "bind m f s = (case m s of (Inl e, s') \<Rightarrow> (Inl e, s') | (Inr x, s') \<Rightarrow> f x s')"

definition issue :: "env \<Rightarrow> call \<Rightarrow> unit action" where
  "issue E c s =
     (let h = log s @ [c]; s' = s\<lparr>log := h\<rparr>
      in case cmd_reply E h of Some e \<Rightarrow> (Inl e, s') | None \<Rightarrow> (Inr (), s'))"

definition controller_time :: "env \<Rightarrow> pyfloat action" where
  "controller_time E s =
     (let h = log s @ [Time]; s' = s\<lparr>log := h\<rparr>
      in case time_reply E h of Inl e \<Rightarrow> (Inl e, s') | Inr t \<Rightarrow> (Inr t, s'))"

definition controller_evaluate :: "env \<Rightarrow> pystr \<Rightarrow> pystr action" where
  "controller_evaluate E script s =
     (let h = log s @ [Evaluate script]; s' = s\<lparr>log := h\<rparr>
      in case eval_reply E h of Inl e \<Rightarrow> (Inl e, s') | Inr r \<Rightarrow> (Inr r, s'))"

subsection \<open>Controller management\<close>

text \<open>\<open>FlexSimPy.launch(programDir=...)\<close>; the handle is named by the position of the launch.\<close>

definition FlexSimPy_launch :: "env \<Rightarrow> pystr \<Rightarrow> nat action" where
  "FlexSimPy_launch E program_dir s =
     (let h = log s @ [Launch program_dir]; s' = s\<lparr>log := h\<rparr>
      in case cmd_reply E h of Some e \<Rightarrow> (Inl e, s') | None \<Rightarrow> (Inr (length (log s)), s'))"

definition launch_flexsim_sync :: "env \<Rightarrow> nat action" where
  "launch_flexsim_sync E s =
     (if \<not> module_loaded E then (Inl (Exn RuntimeError (str ''FlexSimPy module not available'')), s)
      else let program_dir = install_path E
           in if \<not> path_exists E program_dir then
                (case find (path_exists E) (alternative_paths E) of
                   Some alt_path \<Rightarrow> FlexSimPy_launch E alt_path s
                 | None \<Rightarrow>
                     (Inl (Exn FileNotFoundError
                            (str ''FlexSim not found at '' @ program_dir
                               @ str ''. Update config.toml with correct path.'')), s))
              else FlexSimPy_launch E program_dir s)"

text \<open>\<open>get_controller\<close>, as one caller runs it from acquiring the lock to releasing it.\<close>

definition get_controller :: "env \<Rightarrow> nat action" where
  "get_controller E s =
     (case controller s of
        Some c \<Rightarrow> (Inr c, s)
      | None \<Rightarrow>
          (case launch_flexsim_sync E s of
             (Inl e, s') \<Rightarrow> (Inl e, s')
           | (Inr c, s') \<Rightarrow> (Inr c, s'\<lparr>controller := Some c\<rparr>)))"

section \<open>Input models\<close>

text \<open>
  The pydantic input models. A request whose arguments fail validation is rejected
  by the framework, and the tool function is not called. The error kinds are pydantic's.
\<close>

datatype verr =
    StringTooShort
  | StringTooLong
  | GreaterThan
  | GreaterThanEqual
  | LessThanEqual
  | ValueError pystr

text \<open>\<open>OpenModelInput.validate_path\<close>.\<close>

definition validate_path :: "env \<Rightarrow> pystr \<Rightarrow> verr + pystr" where
  "validate_path E v =
     (if lower (path_suffix E v) \<notin> set [str ''.fsm'', str ''.fsx''] then
        Inl (ValueError (str ''Model must be .fsm or .fsx file''))
      else if \<not> path_exists E v then Inl (ValueError (str ''File not found: '' @ v))
      else Inr (path_resolve E v))"

text \<open>\<open>model_path: str = Field(..., min_length=1)\<close>, then the field validator.\<close>

definition OpenModelInput :: "env \<Rightarrow> pystr \<Rightarrow> verr + pystr" where
  "OpenModelInput E model_path =
     (if length model_path < 1 then Inl StringTooShort else validate_path E model_path)"

text \<open>\<open>target_time: float = Field(..., gt=0)\<close>, \<open>fast_mode: bool = Field(default=False)\<close>.\<close>

definition RunToTimeInput :: "pyfloat \<Rightarrow> bool option \<Rightarrow> verr + pyfloat \<times> bool" where
  "RunToTimeInput target_time fast_mode =
     (if \<not> 0 < target_time then Inl GreaterThan
      else Inr (target_time, case fast_mode of None \<Rightarrow> False | Some b \<Rightarrow> b))"

text \<open>\<open>script: str = Field(..., min_length=1, max_length=10000)\<close>.\<close>

definition EvaluateScriptInput :: "pystr \<Rightarrow> verr + pystr" where
  "EvaluateScriptInput script =
     (if length script < 1 then Inl StringTooShort
      else if 10000 < length script then Inl StringTooLong
      else Inr script)"

text \<open>
  \<open>value: Any | None\<close>: a string, or any other value, of which the tool uses only the
  text that an f-string renders.
\<close>

datatype pyvalue = PStr pystr | POther pystr

definition NodeAccessInput :: "pystr \<Rightarrow> pyvalue option \<Rightarrow> verr + pystr \<times> pyvalue option" where
  "NodeAccessInput node_path v =
     (if length node_path < 1 then Inl StringTooShort else Inr (node_path, v))"

text \<open>\<open>steps: int = Field(default=1, ge=1, le=1000)\<close>; an omitted field takes the default.\<close>

definition StepInput :: "int option \<Rightarrow> verr + int" where
  "StepInput steps =
     (case steps of
        None \<Rightarrow> Inr 1
      | Some n \<Rightarrow>
          if \<not> 1 \<le> n then Inl GreaterThanEqual
          else if \<not> n \<le> 1000 then Inl LessThanEqual
          else Inr n)"

text \<open>\<open>export_path: str = Field(...)\<close>, \<open>format: str = Field(default="csv")\<close>.\<close>

definition ExportResultsInput :: "pystr \<Rightarrow> pystr option \<Rightarrow> verr + pystr \<times> pystr" where
  "ExportResultsInput export_path fmt =
     Inr (export_path, case fmt of None \<Rightarrow> str ''csv'' | Some f \<Rightarrow> f)"

section \<open>Tools\<close>

text \<open>
  \<open>try: ... except Exception as e: return handler(e)\<close>. The state keeps what the body
  did before it raised.
\<close>

definition try_except :: "pystr action \<Rightarrow> (exn \<Rightarrow> pystr) \<Rightarrow> session \<Rightarrow> pystr \<times> session" where
  "try_except body handler s =
     (case body s of (Inr text, s') \<Rightarrow> (text, s') | (Inl e, s') \<Rightarrow> (handler e, s'))"

definition quoted :: "pystr \<Rightarrow> pystr" where
  "quoted s = [34] @ s @ [34]"

definition str_int :: "int \<Rightarrow> pystr" where
  "str_int i = (if i < 0 then str ''-'' @ str_nat (nat (- i)) else str_nat (nat i))"

definition flexsim_open_model :: "env \<Rightarrow> pystr \<Rightarrow> session \<Rightarrow> pystr \<times> session" where
  "flexsim_open_model E model_path =
     try_except
       (bind (get_controller E) (\<lambda>controller.
        bind (issue E (Open model_path)) (\<lambda>_.
        bind (controller_time E) (\<lambda>time.
        return (check_mark @ str '' Opened: '' @ path_stem E model_path @ newline
                  @ str ''Time: '' @ format_time (float_round E) time)))))
       format_error"

definition flexsim_reset :: "env \<Rightarrow> session \<Rightarrow> pystr \<times> session" where
  "flexsim_reset E =
     try_except
       (bind (get_controller E) (\<lambda>controller.
        bind (issue E Reset) (\<lambda>_.
        return (check_mark @ str '' Simulation reset to time 0''))))
       format_error"

definition flexsim_run :: "env \<Rightarrow> session \<Rightarrow> pystr \<times> session" where
  "flexsim_run E =
     try_except
       (bind (get_controller E) (\<lambda>controller.
        bind (issue E Run) (\<lambda>_.
        return (check_mark @ str '' Simulation running (use flexsim_stop to pause)''))))
       format_error"

subsection \<open>Run to time\<close>

text \<open>
  The polling loop of the real-time mode, \<open>while True: ...\<close>. Nothing bounds the number
  of rounds, so the loop is a partial function: \<open>None\<close> is a loop that never ends. The
  sleep between two rounds has no effect on the state of the server.
\<close>

partial_function (option) poll :: "env \<Rightarrow> pyfloat \<Rightarrow> session \<Rightarrow> ((exn + unit) \<times> session) option" where
  "poll E target_time s =
     (case controller_time E s of
        (Inl e, s') \<Rightarrow> Some (Inl e, s')
      | (Inr current, s') \<Rightarrow>
          if target_time \<le> current then Some (issue E Stop s') else poll E target_time s')"

declare poll.simps [code]

definition run_body :: "env \<Rightarrow> pyfloat \<Rightarrow> bool \<Rightarrow> session \<Rightarrow> ((exn + unit) \<times> session) option" where
  "run_body E target_time fast_mode s =
     (if fast_mode then Some (issue E (RunToTime target_time) s)
      else (case bind (controller_evaluate E (str ''setstoptime('' @ float_str E target_time @ str '')''))
                   (\<lambda>_. issue E Run) s of
              (Inl e, s') \<Rightarrow> Some (Inl e, s')
            | (Inr _, s') \<Rightarrow> poll E target_time s'))"

definition run_report :: "env \<Rightarrow> bool \<Rightarrow> pyfloat \<Rightarrow> pystr action" where
  "run_report E fast_mode start =
     bind (controller_time E) (\<lambda>end_time.
     return (check_mark @ str '' Simulation complete (''
               @ (if fast_mode then str ''fast'' else str ''real-time'') @ str '')'' @ newline
               @ str ''Start: '' @ format_time (float_round E) start @ newline
               @ str ''End: '' @ format_time (float_round E) end_time @ newline
               @ str ''Duration: '' @ format_time (float_round E) (float_round E (end_time - start))))"

definition run_to_time_body :: "env \<Rightarrow> pyfloat \<Rightarrow> bool \<Rightarrow> session \<Rightarrow> ((exn + pystr) \<times> session) option" where
  "run_to_time_body E target_time fast_mode s =
     (case bind (get_controller E) (\<lambda>controller. controller_time E) s of
        (Inl e, s') \<Rightarrow> Some (Inl e, s')
      | (Inr start, s') \<Rightarrow>
          if target_time \<le> start then
            Some (Inr (str ''Already at time '' @ format_time (float_round E) start), s')
          else
            (case run_body E target_time fast_mode s' of
               None \<Rightarrow> None
             | Some (Inl e, s'') \<Rightarrow> Some (Inl e, s'')
             | Some (Inr _, s'') \<Rightarrow> Some (run_report E fast_mode start s'')))"

definition flexsim_run_to_time :: "env \<Rightarrow> pyfloat \<Rightarrow> bool \<Rightarrow> session \<Rightarrow> (pystr \<times> session) option" where
  "flexsim_run_to_time E target_time fast_mode s =
     (case run_to_time_body E target_time fast_mode s of
        None \<Rightarrow> None
      | Some r \<Rightarrow> Some (try_except (\<lambda>_. r) format_error s))"

subsection \<open>The other tools\<close>

definition flexsim_stop :: "env \<Rightarrow> session \<Rightarrow> pystr \<times> session" where
  "flexsim_stop E =
     try_except
       (bind (get_controller E) (\<lambda>controller.
        bind (issue E Stop) (\<lambda>_.
        bind (controller_time E) (\<lambda>time.
        return (check_mark @ str '' Stopped at '' @ format_time (float_round E) time)))))
       format_error"

definition flexsim_get_time :: "env \<Rightarrow> session \<Rightarrow> pystr \<times> session" where
  "flexsim_get_time E =
     try_except
       (bind (get_controller E) (\<lambda>controller.
        bind (controller_time E) (\<lambda>time.
        return (str ''Time: '' @ format_time (float_round E) time @ str '' ('' @ fmt2 time @ str ''s)''))))
       format_error"

text \<open>\<open>for _ in range(params.steps): controller.evaluate("step()")\<close>.\<close>

fun step_loop :: "env \<Rightarrow> nat \<Rightarrow> unit action" where
  "step_loop E 0 = return ()"
| "step_loop E (Suc n) = bind (controller_evaluate E (str ''step()'')) (\<lambda>_. step_loop E n)"

definition flexsim_step :: "env \<Rightarrow> int \<Rightarrow> session \<Rightarrow> pystr \<times> session" where
  "flexsim_step E steps =
     try_except
       (bind (get_controller E) (\<lambda>controller.
        bind (controller_time E) (\<lambda>start.
        bind (step_loop E (nat steps)) (\<lambda>_.
        bind (controller_time E) (\<lambda>end_time.
        return (check_mark @ str '' Stepped '' @ str_int steps @ str '' events'' @ newline
                  @ str ''Time: '' @ format_time (float_round E) start @ str '' '' @ arrow @ str '' ''
                  @ format_time (float_round E) end_time))))))
       format_error"

definition flexsim_evaluate :: "env \<Rightarrow> pystr \<Rightarrow> session \<Rightarrow> pystr \<times> session" where
  "flexsim_evaluate E script =
     try_except
       (bind (get_controller E) (\<lambda>controller.
        bind (controller_evaluate E script) (\<lambda>result.
        return (str ''Result: '' @ result))))
       (\<lambda>e. str ''Script error: '' @ format_error e)"

definition getvalue_script :: "pystr \<Rightarrow> pystr" where
  "getvalue_script node_path = str ''getvalue(node('' @ quoted node_path @ str ''))''"

definition flexsim_get_node_value :: "env \<Rightarrow> pystr \<Rightarrow> session \<Rightarrow> pystr \<times> session" where
  "flexsim_get_node_value E node_path =
     try_except
       (bind (get_controller E) (\<lambda>controller.
        bind (controller_evaluate E (getvalue_script node_path)) (\<lambda>result.
        return (node_path @ str '' = '' @ result))))
       format_error"

definition setvalue_script :: "pystr \<Rightarrow> pyvalue \<Rightarrow> pystr" where
  "setvalue_script node_path v =
     (case v of
        PStr t \<Rightarrow> str ''setvalue(node('' @ quoted node_path @ str ''), '' @ quoted t @ str '')''
      | POther r \<Rightarrow> str ''setvalue(node('' @ quoted node_path @ str ''), '' @ r @ str '')'')"

definition flexsim_set_node_value :: "env \<Rightarrow> pystr \<Rightarrow> pyvalue option \<Rightarrow> session \<Rightarrow> pystr \<times> session" where
  "flexsim_set_node_value E node_path v =
     try_except
       (bind (get_controller E) (\<lambda>controller.
        case v of
          None \<Rightarrow> return (str ''Error: No value provided'')
        | Some x \<Rightarrow>
            bind (controller_evaluate E (setvalue_script node_path x)) (\<lambda>_.
            bind (controller_evaluate E (getvalue_script node_path)) (\<lambda>new_value.
            return (check_mark @ str '' '' @ node_path @ str '' = '' @ new_value)))))
       format_error"

text \<open>\<open>if params.save_path:\<close> holds for a string that is not empty.\<close>

definition flexsim_save_model :: "env \<Rightarrow> pystr option \<Rightarrow> session \<Rightarrow> pystr \<times> session" where
  "flexsim_save_model E save_path =
     try_except
       (bind (get_controller E) (\<lambda>controller.
        let (script, location) =
              (case save_path of
                 Some p \<Rightarrow>
                   if p \<noteq> [] then (str ''savemodel('' @ quoted p @ str '')'', p)
                   else (str ''savemodel()'', str ''current location'')
               | None \<Rightarrow> (str ''savemodel()'', str ''current location''))
        in bind (controller_evaluate E script) (\<lambda>_.
           return (check_mark @ str '' Model saved to '' @ location))))
       format_error"

definition flexsim_new_model :: "env \<Rightarrow> session \<Rightarrow> pystr \<times> session" where
  "flexsim_new_model E =
     try_except
       (bind (get_controller E) (\<lambda>controller.
        bind (controller_evaluate E (str ''newmodel()'')) (\<lambda>_.
        return (check_mark @ str '' New blank model created''))))
       format_error"

definition flexsim_compile :: "env \<Rightarrow> session \<Rightarrow> pystr \<times> session" where
  "flexsim_compile E =
     try_except
       (bind (get_controller E) (\<lambda>controller.
        bind (controller_evaluate E (str ''compilemodel()'')) (\<lambda>result.
        return (check_mark @ str '' Compilation complete: '' @ result))))
       format_error"

definition indent :: "nat \<Rightarrow> pystr" where
  "indent n = replicate n 32"

definition stats_script :: pystr where
  "stats_script =
     newline @ indent 8 @ str ''{'' @ newline
     @ indent 12 @ quoted (str ''time'') @ str '': getmodeltime(),'' @ newline
     @ indent 12 @ quoted (str ''run_speed'') @ str '': get(runspeed()),'' @ newline
     @ indent 12 @ quoted (str ''objects'') @ str '': Model.subnodes.length,'' @ newline
     @ indent 12 @ quoted (str ''events'') @ str '': geteventsprocessed()'' @ newline
     @ indent 8 @ str ''}'' @ newline @ indent 8"

definition flexsim_get_statistics :: "env \<Rightarrow> session \<Rightarrow> pystr \<times> session" where
  "flexsim_get_statistics E =
     try_except
       (bind (get_controller E) (\<lambda>controller.
        bind (controller_evaluate E stats_script) (\<lambda>result.
        return (str ''Statistics:'' @ newline @ str ''```json'' @ newline @ result @ newline
                  @ str ''```''))))
       format_error"

text \<open>The script that \<open>flexsim_export_results\<close> builds from the format.\<close>

definition export_script :: "pystr \<Rightarrow> pystr \<Rightarrow> pystr" where
  "export_script export_path format =
     (let fmt = lower format
      in if fmt = str ''csv'' then str ''exporttable('' @ quoted export_path @ str '')''
         else if fmt = str ''xlsx'' then str ''exportexcel('' @ quoted export_path @ str '')''
         else str ''exportjson('' @ quoted export_path @ str '')'')"

definition flexsim_export_results :: "env \<Rightarrow> pystr \<Rightarrow> pystr \<Rightarrow> session \<Rightarrow> pystr \<times> session" where
  "flexsim_export_results E export_path format =
     try_except
       (bind (get_controller E) (\<lambda>controller.
        bind (controller_evaluate E (export_script export_path format)) (\<lambda>_.
        return (check_mark @ str '' Results exported to '' @ export_path))))
       format_error"

section \<open>Requests\<close>

text \<open>
  A request names a tool and carries its arguments as they arrive. The framework builds
  the input model first; a validation error rejects the request, otherwise the tool runs
  and its text is the response.
\<close>

datatype request =
    OpenModel pystr
  | ResetSim
  | RunSim
  | RunToTimeReq pyfloat "bool option"
  | StopSim
  | GetTime
  | Step "int option"
  | EvaluateReq pystr
  | GetNodeValue pystr "pyvalue option"
  | SetNodeValue pystr "pyvalue option"
  | SaveModel "pystr option"
  | NewModel
  | Compile
  | GetStatistics
  | ExportResults pystr "pystr option"

datatype response = Rejected verr | Text pystr

definition respond :: "pystr \<times> session \<Rightarrow> (response \<times> session) option" where
  "respond r = Some (Text (fst r), snd r)"

fun handle :: "env \<Rightarrow> request \<Rightarrow> session \<Rightarrow> (response \<times> session) option" where
  "handle E (OpenModel model_path) s =
     (case OpenModelInput E model_path of
        Inl err \<Rightarrow> Some (Rejected err, s)
      | Inr p \<Rightarrow> respond (flexsim_open_model E p s))"
| "handle E ResetSim s = respond (flexsim_reset E s)"
| "handle E RunSim s = respond (flexsim_run E s)"
| "handle E (RunToTimeReq target_time fast_mode) s =
     (case RunToTimeInput target_time fast_mode of
        Inl err \<Rightarrow> Some (Rejected err, s)
      | Inr (t, f) \<Rightarrow>
          (case flexsim_run_to_time E t f s of None \<Rightarrow> None | Some r \<Rightarrow> respond r))"
| "handle E StopSim s = respond (flexsim_stop E s)"
| "handle E GetTime s = respond (flexsim_get_time E s)"
| "handle E (Step steps) s =
     (case StepInput steps of
        Inl err \<Rightarrow> Some (Rejected err, s)
      | Inr n \<Rightarrow> respond (flexsim_step E n s))"
| "handle E (EvaluateReq script) s =
     (case EvaluateScriptInput script of
        Inl err \<Rightarrow> Some (Rejected err, s)
      | Inr p \<Rightarrow> respond (flexsim_evaluate E p s))"
| "handle E (GetNodeValue node_path v) s =
     (case NodeAccessInput node_path v of
        Inl err \<Rightarrow> Some (Rejected err, s)
      | Inr (p, x) \<Rightarrow> respond (flexsim_get_node_value E p s))"
| "handle E (SetNodeValue node_path v) s =
     (case NodeAccessInput node_path v of
        Inl err \<Rightarrow> Some (Rejected err, s)
      | Inr (p, x) \<Rightarrow> respond (flexsim_set_node_value E p x s))"
| "handle E (SaveModel save_path) s = respond (flexsim_save_model E save_path s)"
| "handle E NewModel s = respond (flexsim_new_model E s)"
| "handle E Compile s = respond (flexsim_compile E s)"
| "handle E GetStatistics s = respond (flexsim_get_statistics E s)"
| "handle E (ExportResults export_path fmt) s =
     (case ExportResultsInput export_path fmt of
        Inl err \<Rightarrow> Some (Rejected err, s)
      | Inr (p, f) \<Rightarrow> respond (flexsim_export_results E p f s))"

section \<open>Session initialization under concurrent callers\<close>

text \<open>
  \<open>get_controller\<close> run by several tasks of one event loop. A task runs without
  interruption up to its next \<open>await\<close>; \<open>get_controller\<close> has two: acquiring
  \<open>_controller_lock\<close> when another task holds it, and \<open>await launch_flexsim()\<close>, which
  it reaches holding the lock after it has found \<open>_controller\<close> to be \<open>None\<close>. A task
  is therefore in one of four places: it has not called yet, it waits for the lock, it
  holds the lock and waits for the launch, whose outcome the worker thread computes, or
  it has returned (a handle or an exception).
\<close>

datatype task = Idle | Waiting | Launching "exn + nat" | Returned "exn + nat"

record process =
  shared :: session
  locked :: bool
  tasks :: "task list"

text \<open>
  What a task does from the moment it gets the lock to its next suspension: with a
  controller present it returns it and releases the lock at once; with none it starts
  the launch and keeps the lock.
\<close>

definition enter :: "env \<Rightarrow> nat \<Rightarrow> process \<Rightarrow> process" where
  "enter E i p =
     (case controller (shared p) of
        Some c \<Rightarrow> p\<lparr>tasks := (tasks p)[i := Returned (Inr c)]\<rparr>
      | None \<Rightarrow>
          (case launch_flexsim_sync E (shared p) of
             (r, s') \<Rightarrow> p\<lparr>shared := s', locked := True, tasks := (tasks p)[i := Launching r]\<rparr>))"

text \<open>
  The scheduler's choices: task \<open>i\<close> calls \<open>get_controller\<close>, a waiting task \<open>i\<close> is
  given the free lock, the launch of task \<open>i\<close> completes. A choice that is not possible
  in the current state changes nothing.
\<close>

datatype event = Call nat | Wake nat | Complete nat

fun step :: "env \<Rightarrow> process \<Rightarrow> event \<Rightarrow> process" where
  "step E p (Call i) =
     (if i < length (tasks p) \<and> tasks p ! i = Idle then
        (if locked p then p\<lparr>tasks := (tasks p)[i := Waiting]\<rparr> else enter E i p)
      else p)"
| "step E p (Wake i) =
     (if i < length (tasks p) \<and> tasks p ! i = Waiting \<and> \<not> locked p then enter E i p else p)"
| "step E p (Complete i) =
     (if i < length (tasks p) then
        (case tasks p ! i of
           Launching (Inr c) \<Rightarrow>
             p\<lparr>shared := (shared p)\<lparr>controller := Some c\<rparr>, locked := False,
               tasks := (tasks p)[i := Returned (Inr c)]\<rparr>
         | Launching (Inl e) \<Rightarrow> p\<lparr>locked := False, tasks := (tasks p)[i := Returned (Inl e)]\<rparr>
         | _ \<Rightarrow> p)
      else p)"

definition exec :: "env \<Rightarrow> event list \<Rightarrow> process \<Rightarrow> process" where
  "exec E evs p = foldl (step E) p evs"

text \<open>A fresh process in which \<open>n\<close> tasks are about to make their first call.\<close>

definition fresh :: "nat \<Rightarrow> process" where
  "fresh n = \<lparr>shared = \<lparr>controller = None, log = []\<rparr>, locked = False, tasks = replicate n Idle\<rparr>"

text \<open>
  \<open>n\<close> simultaneous first calls: every task calls before the first launch completes;
  then the launch of the first task completes, and each waiting task in turn is given the
  lock and its launch, if it starts one, completes.
\<close>

definition simultaneous :: "nat \<Rightarrow> event list" where
  "simultaneous n =
     map Call [0..<n] @ Complete 0 # concat (map (\<lambda>i. [Wake i, Complete i]) [1..<n])"

text \<open>\<open>get_controller\<close> run \<open>k\<close> times, one run after the other: the results and the session.\<close>

fun serial :: "env \<Rightarrow> nat \<Rightarrow> session \<Rightarrow> (exn + nat) list \<times> session" where
  "serial E 0 s = ([], s)"
| "serial E (Suc k) s =
     (case get_controller E s of
        (r, s1) \<Rightarrow> (case serial E k s1 of (rs, s2) \<Rightarrow> (r # rs, s2)))"

text \<open>
  What holds in every state a fresh process can reach. At most one task is in the
  launch, and exactly then the lock is taken and there is no controller; a task that
  returned a handle returned the controller; the log holds launches only, every launch
  but the last one raised, and a last launch that did not raise has produced the
  controller, or the task that holds the lock is about to store it; a second launch is
  only started after a task has returned an exception.
\<close>

definition launching :: "process \<Rightarrow> nat \<Rightarrow> bool" where
  "launching p i = (i < length (tasks p) \<and> (\<exists>r. tasks p ! i = Launching r))"

definition failed :: "process \<Rightarrow> bool" where
  "failed p = (\<exists>i e. i < length (tasks p) \<and> tasks p ! i = Returned (Inl e))"

definition invariant :: "env \<Rightarrow> process \<Rightarrow> bool" where
  "invariant E p =
     ((locked p \<longleftrightarrow> (\<exists>i. launching p i))
      \<and> (\<forall>i j. launching p i \<and> launching p j \<longrightarrow> i = j)
      \<and> ((\<exists>i. launching p i) \<longrightarrow> controller (shared p) = None)
      \<and> (\<forall>i c. i < length (tasks p) \<and> tasks p ! i = Returned (Inr c) \<longrightarrow>
            controller (shared p) = Some c)
      \<and> (\<forall>c \<in> set (log (shared p)). \<exists>d. c = Launch d)
      \<and> (\<forall>k. Suc k < length (log (shared p)) \<longrightarrow>
            cmd_reply E (take (Suc k) (log (shared p))) \<noteq> None)
      \<and> (log (shared p) \<noteq> [] \<and> cmd_reply E (log (shared p)) = None \<longrightarrow>
            controller (shared p) \<noteq> None
            \<or> (\<exists>i c. i < length (tasks p) \<and> tasks p ! i = Launching (Inr c)))
      \<and> (controller (shared p) \<noteq> None
            \<or> (\<exists>i c. i < length (tasks p) \<and> tasks p ! i = Launching (Inr c)) \<longrightarrow>
            log (shared p) \<noteq> [])
      \<and> (log (shared p) \<noteq> [] \<and> controller (shared p) = None \<and> \<not> locked p \<longrightarrow> failed p)
      \<and> (2 \<le> length (log (shared p)) \<longrightarrow> failed p))"

section \<open>The configuration loader\<close>








section \<open>What the engine answered\<close>

text \<open>
  The exception, if any, with which the engine answered the last call of a history:
  \<open>time()\<close> and \<open>evaluate\<close> have replies of their own, every other call is a command.
\<close>

definition raised :: "env \<Rightarrow> call list \<Rightarrow> exn option" where
  "raised E h =
     (if h = [] then None
      else (case last h of
              Time \<Rightarrow> (case time_reply E h of Inl e \<Rightarrow> Some e | Inr t \<Rightarrow> None)
            | Evaluate script \<Rightarrow> (case eval_reply E h of Inl e \<Rightarrow> Some e | Inr r \<Rightarrow> None)
            | _ \<Rightarrow> cmd_reply E h))"

text \<open>What a tool puts in front of the formatted error: only \<open>flexsim_evaluate\<close> adds text.\<close>

fun error_prefix :: "request \<Rightarrow> pystr" where
  "error_prefix (EvaluateReq script) = str ''Script error: ''"
| "error_prefix req = []"

text \<open>
  Every call of \<open>cs\<close> but the last one, issued after the history \<open>h\<close>, was answered
  without an exception.
\<close>

definition earlier_ok :: "env \<Rightarrow> call list \<Rightarrow> call list \<Rightarrow> bool" where
  "earlier_ok E h cs = (\<forall>k. Suc k < length cs \<longrightarrow> raised E (h @ take (Suc k) cs) = None)"

text \<open>
  A piece of a tool that only talks to the engine is \<open>sound\<close>: it leaves the controller
  alone, it only adds calls to the log, no call it issued before its last one raised, it
  raises exactly the exception of the last call it issued, and when it returns normally
  the last call it issued did not raise.
\<close>

definition outcome_ok :: "env \<Rightarrow> session \<Rightarrow> (exn + 'a) \<times> session \<Rightarrow> bool" where
  "outcome_ok E s out =
     (case out of (r, s') \<Rightarrow>
        controller s' = controller s
        \<and> (\<exists>cs. log s' = log s @ cs \<and> earlier_ok E (log s) cs
              \<and> (case r of
                    Inl e \<Rightarrow> cs \<noteq> [] \<and> raised E (log s') = Some e
                  | Inr x \<Rightarrow> cs = [] \<or> raised E (log s') = None)))"

definition sound :: "env \<Rightarrow> 'a action \<Rightarrow> bool" where
  "sound E m = (\<forall>s. outcome_ok E s (m s))"

text \<open>
  A whole tool body \<open>catches\<close>: a call that raises is the last call the body issues, and
  the body ends with the exception of that call.
\<close>

definition caught :: "env \<Rightarrow> session \<Rightarrow> (exn + 'a) \<times> session \<Rightarrow> bool" where
  "caught E s out =
     (case out of (r, s') \<Rightarrow>
        (\<exists>cs. log s' = log s @ cs \<and> earlier_ok E (log s) cs
           \<and> (\<forall>e. cs \<noteq> [] \<and> raised E (log s') = Some e \<longrightarrow> r = Inl e)))"

text \<open>
  A tool \<open>answers\<close> with the handler: a call that raises is the last call of the request,
  and the response is the handler's text for the exception of that call.
\<close>

definition answers :: "env \<Rightarrow> session \<Rightarrow> (exn \<Rightarrow> pystr) \<Rightarrow> pystr \<times> session \<Rightarrow> bool" where
  "answers E s handler out =
     (case out of (text, s') \<Rightarrow>
        (\<exists>cs. log s' = log s @ cs \<and> earlier_ok E (log s) cs
           \<and> (\<forall>e. cs \<noteq> [] \<and> raised E (log s') = Some e \<longrightarrow> text = handler e)))"

section \<open>A test double of the environment\<close>

text \<open>
  \<open>PurePath.name\<close>, \<open>suffix\<close> and \<open>stem\<close> for a path written with \<open>/\<close> and without a
  trailing separator: the name is what follows the last separator, and the suffix starts
  at the last dot of the name unless that dot is its first or its last character.
\<close>

definition pure_name :: "pystr \<Rightarrow> pystr" where
  "pure_name v = rev (takeWhile (\<lambda>c. c \<noteq> 47) (rev v))"

definition pure_suffix :: "pystr \<Rightarrow> pystr" where
  "pure_suffix v =
     (let name = pure_name v; tail = rev (takeWhile (\<lambda>c. c \<noteq> 46) (rev name))
      in if 46 \<in> set name \<and> length tail + 1 < length name \<and> tail \<noteq> [] then 46 # tail else [])"

definition pure_stem :: "pystr \<Rightarrow> pystr" where
  "pure_stem v =
     (let name = pure_name v
      in take (length name - length (pure_suffix v)) name)"

text \<open>
  An environment for concrete runs, given the replies of the engine to commands and to
  \<open>time()\<close> and the paths that exist: the module is loaded, \<open>evaluate\<close> returns 0, float
  operations are exact, and \<open>str\<close> of a float is that of an integral value (\<open>10.0\<close>).
\<close>

definition double :: "(call list \<Rightarrow> exn option) \<Rightarrow> (call list \<Rightarrow> exn + pyfloat) \<Rightarrow> pystr list \<Rightarrow> env" where
  "double cmd clock present =
     \<lparr>cmd_reply = cmd, time_reply = clock, eval_reply = (\<lambda>h. Inr (str ''0'')),
      module_loaded = True, install_path = str ''C:/FlexSim/program'',
      alternative_paths = [str ''D:/FlexSim/program'', str ''E:/FlexSim/program''],
      path_exists = (\<lambda>v. v \<in> set present), path_suffix = pure_suffix, path_stem = pure_stem,
      path_resolve = (\<lambda>v. v), float_round = (\<lambda>x. x),
      float_str = (\<lambda>x. str_int \<lfloor>x\<rfloor> @ str ''.0'')\<rparr>"

text \<open>An engine whose first launch raises and whose later launches succeed.\<close>

definition first_launch_fails :: "call list \<Rightarrow> exn option" where
  "first_launch_fails h =
     (if length h = 1 then Some (Exn EngineError (str ''License expired'')) else None)"

definition license_expired :: exn where
  "license_expired = Exn EngineError (str ''License expired'')"

text \<open>
  The test double with an \<open>evaluate\<close> that always raises, and the one in which the import
  of \<open>FlexSimPy\<close> failed.
\<close>

definition evaluate_raises :: env where
  "evaluate_raises =
     (double (\<lambda>h. None) (\<lambda>h. Inr 0) [])\<lparr>eval_reply := (\<lambda>h. Inl license_expired)\<rparr>"

definition module_missing :: "pystr list \<Rightarrow> env" where
  "module_missing present = (double (\<lambda>h. None) (\<lambda>h. Inr 0) present)\<lparr>module_loaded := False\<rparr>"

text \<open>A session whose controller exists, and one before the first call.\<close>

definition running :: session where
  "running = \<lparr>controller = Some 0, log = [Launch (str ''C:/FlexSim/program'')]\<rparr>"

definition initial :: session where
  "initial = \<lparr>controller = None, log = []\<rparr>"


section \<open>Facts about the session primitives\<close>

lemma get_controller_present: "controller s = Some c \<Longrightarrow> get_controller E s = (Inr c, s)"
  by (simp add: get_controller_def)

section \<open>Time formatting\<close>

lemma round_half_even_near:
  assumes "of_int n - 1 / 2 < x" and "x < of_int n + 1 / 2"
  shows "round_half_even x = n"
proof -
  have fl_cases: "\<lfloor>x\<rfloor> = n \<or> \<lfloor>x\<rfloor> = n - 1"
    using assms by (simp add: floor_eq_iff) linarith
  then show ?thesis
  proof
    assume f: "\<lfloor>x\<rfloor> = n"
    then have "x - of_int n < 1 / 2" using assms by simp
    with f show ?thesis by (simp add: round_half_even_def Let_def)
  next
    assume f: "\<lfloor>x\<rfloor> = n - 1"
    then have "1 / 2 < x - of_int (n - 1)" using assms by simp
    with f show ?thesis by (simp add: round_half_even_def Let_def)
  qed
qed

lemma round_half_even_close: "\<bar>of_int (round_half_even x) - x\<bar> \<le> 1 / 2"
proof -
  have a: "of_int \<lfloor>x\<rfloor> \<le> x" and b: "x < of_int \<lfloor>x\<rfloor> + 1" by linarith+
  show ?thesis
    unfolding round_half_even_def Let_def using a b by (auto simp: abs_le_iff) 
qed

lemma cents_close: "\<bar>of_nat (cents x) - \<bar>x\<bar> * 100\<bar> \<le> 1 / 2"
proof -
  have "0 \<le> round_half_even (\<bar>x\<bar> * 100)"
  proof -
    have "0 \<le> \<lfloor>\<bar>x\<bar> * 100\<rfloor>" by simp
    then show ?thesis unfolding round_half_even_def Let_def by auto
  qed
  then have "(of_nat (cents x) :: rat) = of_int (round_half_even (\<bar>x\<bar> * 100))"
    unfolding cents_def by simp
  then show ?thesis using round_half_even_close [of "\<bar>x\<bar> * 100"] by simp
qed

lemma fmt2_near:
  assumes "0 \<le> x" and "of_nat n - 1 / 2 < x * 100" and "x * 100 < of_nat n + 1 / 2"
  shows "fmt2 x = str_nat (n div 100) @ str ''.'' @ [digit_cp (n mod 100 div 10), digit_cp (n mod 10)]"
proof -
  have "round_half_even (\<bar>x\<bar> * 100) = int n"
    using assms by (intro round_half_even_near) simp_all
  then have "cents x = n" by (simp add: cents_def)
  then show ?thesis using assms(1) by (simp add: fmt2_def Let_def)
qed

lemma render_45: "str_nat (4500 div 100) @ str ''.'' @ [digit_cp (4500 mod 100 div 10), digit_cp (4500 mod 10)] @ str ''s'' = str ''45.00s''"
  by (simp add: str_def str_nat.simps digit_cp_def)

lemma render_208: "str_nat (208 div 100) @ str ''.'' @ [digit_cp (208 mod 100 div 10), digit_cp (208 mod 10)] @ str ''m'' = str ''2.08m''"
  by (simp add: str_def str_nat.simps digit_cp_def)

lemma render_200: "str_nat (200 div 100) @ str ''.'' @ [digit_cp (200 mod 100 div 10), digit_cp (200 mod 10)] @ str ''h'' = str ''2.00h''"
  by (simp add: str_def str_nat.simps digit_cp_def)

lemma fl_bounds:
  assumes "\<forall>x. \<bar>fl x - x\<bar> \<le> \<bar>x\<bar> / 2 ^ 53" and "0 < (q::rat)"
  shows "q - q / 1048576 \<le> fl q" and "fl q \<le> q + q / 1048576"
proof -
  have "(2::rat) ^ 20 \<le> 2 ^ 53" by (rule power_increasing) simp_all
  then have "q / 2 ^ 53 \<le> q / 2 ^ 20"
    using assms(2) by (intro divide_left_mono) simp_all
  then have e: "q / 2 ^ 53 \<le> q / 1048576" by simp
  have "\<bar>fl q - q\<bar> \<le> \<bar>q\<bar> / 2 ^ 53" using assms(1) by blast
  then have "\<bar>fl q - q\<bar> \<le> q / 2 ^ 53" using assms(2) by (simp only: abs_of_pos)
  then have "\<bar>fl q - q\<bar> \<le> q / 1048576" using e by linarith
  then show "q - q / 1048576 \<le> fl q" and "fl q \<le> q + q / 1048576"
    by (simp_all only: abs_le_iff) linarith+
qed

lemma format_time_examples:
  assumes acc: "\<forall>x. \<bar>fl x - x\<bar> \<le> \<bar>x\<bar> / 2 ^ 53"
  shows "format_time fl 45 = str ''45.00s''"
    and "format_time fl 125 = str ''2.08m''"
    and "format_time fl 7200 = str ''2.00h''"
proof -
  have "fmt2 45 = str_nat (4500 div 100) @ str ''.'' @ [digit_cp (4500 mod 100 div 10), digit_cp (4500 mod 10)]"
    by (rule fmt2_near) simp_all
  then show "format_time fl 45 = str ''45.00s''"
    using render_45 by (simp add: format_time_def)
next
  let ?q = "125 / 60 :: rat"
  have lo: "?q - ?q / 1048576 \<le> fl ?q" and hi: "fl ?q \<le> ?q + ?q / 1048576"
    using fl_bounds [OF acc, of ?q] by simp_all
  have "fmt2 (fl ?q) = str_nat (208 div 100) @ str ''.'' @ [digit_cp (208 mod 100 div 10), digit_cp (208 mod 10)]"
    using lo hi by (intro fmt2_near; simp; linarith)
  then show "format_time fl 125 = str ''2.08m''"
    using render_208 by (simp add: format_time_def)
next
  let ?q = "7200 / 3600 :: rat"
  have lo: "?q - ?q / 1048576 \<le> fl ?q" and hi: "fl ?q \<le> ?q + ?q / 1048576"
    using fl_bounds [OF acc, of ?q] by simp_all
  have "fmt2 (fl ?q) = str_nat (200 div 100) @ str ''.'' @ [digit_cp (200 mod 100 div 10), digit_cp (200 mod 10)]"
    using lo hi by (intro fmt2_near; simp; linarith)
  then show "format_time fl 7200 = str ''2.00h''"
    using render_200 by (simp add: format_time_def)
qed


text \<open>
  C5. For a time \<open>t \<ge> 0\<close>, \<open>format_time\<close> renders \<open>t\<close> itself with two decimals and the
  unit \<open>s\<close> when \<open>t < 60\<close>, the float \<open>t / 60\<close> with unit \<open>m\<close> when \<open>60 \<le> t < 3600\<close>, and
  the float \<open>t / 3600\<close> with unit \<open>h\<close> when \<open>3600 \<le> t\<close>; the two decimals are those of the
  nearest hundredth. With division rounded as binary64 does (relative error at most
  \<open>2\<^sup>-\<^sup>5\<^sup>3\<close>), 45.0 gives \<open>45.00s\<close>, 125.0 gives \<open>2.08m\<close> and 7200.0 gives \<open>2.00h\<close>.
\<close>

theorem format_time_thresholds:
  "(0 \<le> t \<and> t < 60 \<longrightarrow> format_time fl t = fmt2 t @ str ''s'')
   \<and> (60 \<le> t \<and> t < 3600 \<longrightarrow> format_time fl t = fmt2 (fl (t / 60)) @ str ''m'')
   \<and> (3600 \<le> t \<longrightarrow> format_time fl t = fmt2 (fl (t / 3600)) @ str ''h'')
   \<and> \<bar>of_nat (cents x) - \<bar>x\<bar> * 100\<bar> \<le> 1 / 2
   \<and> ((\<forall>q. \<bar>fl q - q\<bar> \<le> \<bar>q\<bar> / 2 ^ 53) \<longrightarrow>
        format_time fl 45 = str ''45.00s'' \<and> format_time fl 125 = str ''2.08m''
        \<and> format_time fl 7200 = str ''2.00h'')"
  using cents_close [of x] format_time_examples [of fl]
  by (simp add: format_time_def)

theorem format_time_thresholds_witness:
  "format_time (\<lambda>q. q) 45 = str ''45.00s'' \<and> format_time (\<lambda>q. q) 125 = str ''2.08m''
   \<and> format_time (\<lambda>q. q) 7200 = str ''2.00h''
   \<and> format_time (\<lambda>q. q) 59 = fmt2 59 @ str ''s''
   \<and> format_time (\<lambda>q. q) 60 = fmt2 (60 / 60) @ str ''m''
   \<and> format_time (\<lambda>q. q) 3600 = fmt2 (3600 / 3600) @ str ''h''"
  using format_time_thresholds [of 59 "\<lambda>q. q" 0] format_time_thresholds [of 60 "\<lambda>q. q" 0]
    format_time_thresholds [of 3600 "\<lambda>q. q" 0]
  by simp

section \<open>Validation of the script\<close>

text \<open>
  C6. An evaluate request whose script is empty or longer than 10,000 characters is
  rejected with a validation error and leaves the session as it was: no controller is
  created and nothing is issued to the engine. A script of 1 to 10,000 characters passes
  validation unchanged.
\<close>

theorem evaluate_script_bounds:
  "(length script = 0 \<or> 10000 < length script \<longrightarrow>
      (\<exists>err. handle E (EvaluateReq script) s = Some (Rejected err, s)))
   \<and> (1 \<le> length script \<and> length script \<le> 10000 \<longrightarrow>
        EvaluateScriptInput script = Inr script
        \<and> handle E (EvaluateReq script) s = respond (flexsim_evaluate E script s))"
  by (auto simp: EvaluateScriptInput_def)

theorem evaluate_script_bounds_witness:
  "(\<exists>err. handle (double (\<lambda>h. None) (\<lambda>h. Inr 0) []) (EvaluateReq (replicate 10001 97)) initial = Some (Rejected err, initial))
   \<and> (\<exists>err. handle (double (\<lambda>h. None) (\<lambda>h. Inr 0) []) (EvaluateReq []) initial = Some (Rejected err, initial))
   \<and> EvaluateScriptInput (replicate 10000 97) = Inr (replicate 10000 97)
   \<and> EvaluateScriptInput [97] = Inr [97]"
  using evaluate_script_bounds [of "replicate 10001 97" "double (\<lambda>h. None) (\<lambda>h. Inr 0) []" initial]
    evaluate_script_bounds [of "[]" "double (\<lambda>h. None) (\<lambda>h. Inr 0) []" initial]
    evaluate_script_bounds [of "replicate 10000 97" "double (\<lambda>h. None) (\<lambda>h. Inr 0) []" initial]
    evaluate_script_bounds [of "[97]" "double (\<lambda>h. None) (\<lambda>h. Inr 0) []" initial]
  by simp

lemma lower_append: "lower (a @ b) = lower a @ lower b"
  by (simp add: lower_def)

lemma not_found_message:
  "sublist (str ''not found'') (lower (str ''FlexSim not found at '' @ d @ t))"
proof -
  have "lower (str ''FlexSim not found at '') = str ''flexsim '' @ str ''not found'' @ str '' at ''"
    by (simp add: lower_def lower_cp_def str_def)
  then have "lower (str ''FlexSim not found at '' @ d @ t)
      = str ''flexsim '' @ str ''not found'' @ (str '' at '' @ lower (d @ t))"
    by (simp add: lower_append)
  then show ?thesis by (simp only: sublist_appendI)
qed

lemma format_error_not_found:
  "sublist (str ''not found'') (lower msg) \<Longrightarrow> format_error (Exn c msg) = str ''Not found: '' @ msg"
  by (simp add: format_error_def)

lemma module_not_available_category:
  "\<not> sublist (str ''not found'') (lower (str ''FlexSimPy module not available''))"
  "\<not> sublist (str ''syntax'') (lower (str ''FlexSimPy module not available''))"
  "\<not> sublist (str ''license'') (lower (str ''FlexSimPy module not available''))"
  "\<not> sublist (str ''permission'') (lower (str ''FlexSimPy module not available''))"
  by code_simp+

lemma format_error_module_not_available:
  "format_error (Exn RuntimeError (str ''FlexSimPy module not available''))
     = str ''Error: '' @ str ''FlexSimPy module not available''"
  by (simp add: format_error_def module_not_available_category)

text \<open>
  C8. \<open>launch_flexsim_sync\<close> first tests whether the FlexSimPy module was imported. If it
  was not, it raises RuntimeError at once, whatever paths exist; the tools report it in
  the generic category \<open>Error\<close>, and the session is unchanged. If it was, the configured
  install path is launched when it exists; when it does not, the fallback paths are tried
  in their configured order and the engine is launched from the first one that exists;
  if none exists, initialization raises FileNotFoundError, which the tools report in the
  category \<open>Not found\<close>, and no launch is attempted: the session is unchanged.
\<close>

theorem launch_fallback_paths:
  "(\<not> module_loaded E \<longrightarrow>
      launch_flexsim_sync E s = (Inl (Exn RuntimeError (str ''FlexSimPy module not available'')), s)
      \<and> format_error (Exn RuntimeError (str ''FlexSimPy module not available''))
           = str ''Error: '' @ str ''FlexSimPy module not available'')
   \<and> (module_loaded E \<and> path_exists E (install_path E) \<longrightarrow>
        launch_flexsim_sync E s = FlexSimPy_launch E (install_path E) s
        \<and> log (snd (launch_flexsim_sync E s)) = log s @ [Launch (install_path E)])
   \<and> (module_loaded E \<and> \<not> path_exists E (install_path E)
        \<and> alternative_paths E = before @ alt # rest \<and> (\<forall>d \<in> set before. \<not> path_exists E d)
        \<and> path_exists E alt \<longrightarrow>
          launch_flexsim_sync E s = FlexSimPy_launch E alt s
          \<and> log (snd (launch_flexsim_sync E s)) = log s @ [Launch alt])
   \<and> (module_loaded E \<and> \<not> path_exists E (install_path E)
        \<and> (\<forall>d \<in> set (alternative_paths E). \<not> path_exists E d) \<longrightarrow>
          (\<exists>msg. launch_flexsim_sync E s = (Inl (Exn FileNotFoundError msg), s)
                \<and> format_error (Exn FileNotFoundError msg) = str ''Not found: '' @ msg
                \<and> get_controller E \<lparr>controller = None, log = h\<rparr>
                    = (Inl (Exn FileNotFoundError msg), \<lparr>controller = None, log = h\<rparr>)))"
proof (intro conjI impI)
  assume "\<not> module_loaded E"
  then show "launch_flexsim_sync E s
      = (Inl (Exn RuntimeError (str ''FlexSimPy module not available'')), s)"
    by (simp add: launch_flexsim_sync_def)
next
  show "format_error (Exn RuntimeError (str ''FlexSimPy module not available''))
           = str ''Error: '' @ str ''FlexSimPy module not available''"
    by (rule format_error_module_not_available)
next
  assume a: "module_loaded E \<and> path_exists E (install_path E)"
  then show l: "launch_flexsim_sync E s = FlexSimPy_launch E (install_path E) s"
    by (simp add: launch_flexsim_sync_def)
  show "log (snd (launch_flexsim_sync E s)) = log s @ [Launch (install_path E)]"
    unfolding l by (simp add: FlexSimPy_launch_def Let_def split: option.split)
next
  assume a: "module_loaded E \<and> \<not> path_exists E (install_path E)
        \<and> alternative_paths E = before @ alt # rest \<and> (\<forall>d \<in> set before. \<not> path_exists E d)
        \<and> path_exists E alt"
  then have "find (path_exists E) (alternative_paths E) = Some alt"
    by (auto simp: find_Some_iff nth_append intro!: exI [of _ "length before"])
  then show l: "launch_flexsim_sync E s = FlexSimPy_launch E alt s"
    using a by (simp add: launch_flexsim_sync_def)
  show "log (snd (launch_flexsim_sync E s)) = log s @ [Launch alt]"
    unfolding l by (simp add: FlexSimPy_launch_def Let_def split: option.split)
next
  assume a: "module_loaded E \<and> \<not> path_exists E (install_path E)
        \<and> (\<forall>d \<in> set (alternative_paths E). \<not> path_exists E d)"
  then have none: "find (path_exists E) (alternative_paths E) = None"
    by (simp add: find_None_iff)
  let ?msg = "str ''FlexSim not found at '' @ install_path E
                 @ str ''. Update config.toml with correct path.''"
  have l: "\<And>s. launch_flexsim_sync E s = (Inl (Exn FileNotFoundError ?msg), s)"
    using a none by (simp add: launch_flexsim_sync_def)
  have f: "format_error (Exn FileNotFoundError ?msg) = str ''Not found: '' @ ?msg"
    by (rule format_error_not_found) (rule not_found_message)
  have g: "get_controller E \<lparr>controller = None, log = h\<rparr>
             = (Inl (Exn FileNotFoundError ?msg), \<lparr>controller = None, log = h\<rparr>)"
    by (simp add: get_controller_def l)
  from l f g show "\<exists>msg. launch_flexsim_sync E s = (Inl (Exn FileNotFoundError msg), s)
                \<and> format_error (Exn FileNotFoundError msg) = str ''Not found: '' @ msg
                \<and> get_controller E \<lparr>controller = None, log = h\<rparr>
                    = (Inl (Exn FileNotFoundError msg), \<lparr>controller = None, log = h\<rparr>)"
    by blast
qed

lemma double_simps:
  "module_loaded (double cmd clock present)"
  "install_path (double cmd clock present) = str ''C:/FlexSim/program''"
  "alternative_paths (double cmd clock present) = [str ''D:/FlexSim/program'', str ''E:/FlexSim/program'']"
  "path_exists (double cmd clock present) v = (v \<in> set present)"
  "cmd_reply (double cmd clock present) = cmd"
  "time_reply (double cmd clock present) = clock"
  "eval_reply (double cmd clock present) h = Inr (str ''0'')"
  "float_round (double cmd clock present) x = x"
  "path_suffix (double cmd clock present) = pure_suffix"
  "path_resolve (double cmd clock present) v = v"
  by (simp_all add: double_def)

lemma module_missing_simps:
  "\<not> module_loaded (module_missing present)"
  "install_path (module_missing present) = str ''C:/FlexSim/program''"
  "alternative_paths (module_missing present) = [str ''D:/FlexSim/program'', str ''E:/FlexSim/program'']"
  "path_exists (module_missing present) v = (v \<in> set present)"
  by (simp_all add: module_missing_def double_def)

theorem launch_fallback_paths_witness:
  "log (snd (launch_flexsim_sync (double (\<lambda>h. None) (\<lambda>h. Inr 0) [str ''E:/FlexSim/program'']) initial))
     = [Launch (str ''E:/FlexSim/program'')]
   \<and> (\<exists>msg. launch_flexsim_sync (double (\<lambda>h. None) (\<lambda>h. Inr 0) []) initial
               = (Inl (Exn FileNotFoundError msg), initial))
   \<and> log (snd (launch_flexsim_sync (double (\<lambda>h. None) (\<lambda>h. Inr 0) [str ''C:/FlexSim/program'']) initial))
     = [Launch (str ''C:/FlexSim/program'')]
   \<and> launch_flexsim_sync (module_missing []) initial
       = (Inl (Exn RuntimeError (str ''FlexSimPy module not available'')), initial)"
proof -
  let ?E = "double (\<lambda>h. None) (\<lambda>h. Inr 0) [str ''E:/FlexSim/program'']"
  let ?F = "double (\<lambda>h. None) (\<lambda>h. Inr 0) []"
  let ?P = "double (\<lambda>h. None) (\<lambda>h. Inr 0) [str ''C:/FlexSim/program'']"
  have ne: "str ''C:/FlexSim/program'' \<noteq> str ''E:/FlexSim/program''"
       "str ''D:/FlexSim/program'' \<noteq> str ''E:/FlexSim/program''"
    by (simp_all add: str_def)
  have a: "log (snd (launch_flexsim_sync ?E initial)) = log initial @ [Launch (str ''E:/FlexSim/program'')]"
    using launch_fallback_paths [of ?E initial "[str ''D:/FlexSim/program'']" "str ''E:/FlexSim/program''" "[]" "[]"] ne
    by (auto simp: double_simps)
  have b: "\<exists>msg. launch_flexsim_sync ?F initial = (Inl (Exn FileNotFoundError msg), initial)"
    using launch_fallback_paths [of ?F initial "[]" "[]" "[]" "[]"]
    by (auto simp: double_simps)
  have c: "log (snd (launch_flexsim_sync ?P initial)) = log initial @ [Launch (str ''C:/FlexSim/program'')]"
    using launch_fallback_paths [of ?P initial "[]" "[]" "[]" "[]"]
    by (auto simp: double_simps)
  have d: "launch_flexsim_sync (module_missing []) initial
       = (Inl (Exn RuntimeError (str ''FlexSimPy module not available'')), initial)"
    using launch_fallback_paths [of "module_missing []" initial "[]" "[]" "[]" "[]"]
    by (simp add: module_missing_simps)
  from a b c d show ?thesis by (simp add: initial_def)
qed

text \<open>
  The claim as stated fails when the FlexSimPy module could not be imported. With the
  install path missing and the first fallback present, no fallback is used; with no path
  present at all, the error is not the FileNotFoundError of the claim. In both cases
  initialization raises RuntimeError and a tool answers in the generic category.
\<close>

theorem launch_module_missing_counterexample:
  "\<not> path_exists (module_missing [str ''D:/FlexSim/program''])
        (install_path (module_missing [str ''D:/FlexSim/program'']))
   \<and> path_exists (module_missing [str ''D:/FlexSim/program'']) (str ''D:/FlexSim/program'')
   \<and> launch_flexsim_sync (module_missing [str ''D:/FlexSim/program'']) initial
       = (Inl (Exn RuntimeError (str ''FlexSimPy module not available'')), initial)
   \<and> launch_flexsim_sync (module_missing []) initial
       = (Inl (Exn RuntimeError (str ''FlexSimPy module not available'')), initial)
   \<and> handle (module_missing []) ResetSim initial
       = Some (Text (str ''Error: '' @ str ''FlexSimPy module not available''), initial)"
proof -
  have ne: "str ''C:/FlexSim/program'' \<noteq> str ''D:/FlexSim/program''"
    by (simp add: str_def)
  have l: "launch_flexsim_sync (module_missing present) initial
       = (Inl (Exn RuntimeError (str ''FlexSimPy module not available'')), initial)" for present
    by (simp add: launch_flexsim_sync_def module_missing_simps)
  have h: "handle (module_missing []) ResetSim initial
       = Some (Text (str ''Error: '' @ str ''FlexSimPy module not available''), initial)"
    by (simp add: flexsim_reset_def try_except_def bind_def get_controller_def
        l [unfolded initial_def] initial_def respond_def format_error_module_not_available)
  show ?thesis using ne l h by (simp add: module_missing_simps)
qed

section \<open>Configuration file resolution\<close>








section \<open>Export of results\<close>






section \<open>Engine exceptions reach the handler\<close>

lemma raised_Time:
  "raised E (h @ [Time]) = (case time_reply E (h @ [Time]) of Inl e \<Rightarrow> Some e | Inr t \<Rightarrow> None)"
  by (simp add: raised_def)

lemma raised_Evaluate:
  "raised E (h @ [Evaluate x]) = (case eval_reply E (h @ [Evaluate x]) of Inl e \<Rightarrow> Some e | Inr r \<Rightarrow> None)"
  by (simp add: raised_def)

lemma raised_command:
  "c \<noteq> Time \<Longrightarrow> (\<forall>x. c \<noteq> Evaluate x) \<Longrightarrow> raised E (h @ [c]) = cmd_reply E (h @ [c])"
  by (cases c) (simp_all add: raised_def)

lemma earlier_ok_short [simp]: "earlier_ok E h []" "earlier_ok E h [c]"
  by (simp_all add: earlier_ok_def)

lemma earlier_ok_append:
  assumes "earlier_ok E h cs1" and "earlier_ok E (h @ cs1) cs2"
    and "cs1 = [] \<or> cs2 = [] \<or> raised E (h @ cs1) = None"
  shows "earlier_ok E h (cs1 @ cs2)"
  unfolding earlier_ok_def
proof (intro allI impI)
  fix k assume k: "Suc k < length (cs1 @ cs2)"
  consider "Suc k < length cs1" | "Suc k = length cs1" | "length cs1 < Suc k" by linarith
  then show "raised E (h @ take (Suc k) (cs1 @ cs2)) = None"
  proof cases
    case 1
    then show ?thesis using assms(1) by (simp add: earlier_ok_def)
  next
    case 2
    with k have "cs1 \<noteq> []" "cs2 \<noteq> []" by auto
    with assms(3) 2 show ?thesis by simp
  next
    case 3
    then obtain j where j: "Suc k - length cs1 = Suc j" by (cases "Suc k - length cs1") auto
    with k 3 have "Suc j < length cs2" by simp
    with assms(2) have "raised E ((h @ cs1) @ take (Suc j) cs2) = None"
      by (simp add: earlier_ok_def)
    with 3 j show ?thesis by simp
  qed
qed

lemma sound_return: "sound E (return x)"
  by (simp add: sound_def outcome_ok_def return_def)

lemma sound_issue:
  "c \<noteq> Time \<Longrightarrow> (\<forall>x. c \<noteq> Evaluate x) \<Longrightarrow> sound E (issue E c)"
  by (auto simp: sound_def outcome_ok_def issue_def Let_def raised_command split: option.split)

lemma sound_time: "sound E (controller_time E)"
  by (auto simp: sound_def outcome_ok_def controller_time_def Let_def raised_Time split: sum.split)

lemma sound_evaluate: "sound E (controller_evaluate E x)"
  by (auto simp: sound_def outcome_ok_def controller_evaluate_def Let_def raised_Evaluate
      split: sum.split)

lemma outcome_ok_trans:
  assumes "outcome_ok E s (Inr x, s1)" and "outcome_ok E s1 (r, s2)"
  shows "outcome_ok E s (r, s2)"
proof -
  from assms(1) obtain cs1 where 1: "controller s1 = controller s" "log s1 = log s @ cs1"
    "cs1 = [] \<or> raised E (log s1) = None" "earlier_ok E (log s) cs1"
    by (auto simp: outcome_ok_def)
  from assms(2) obtain cs2 where 2: "controller s2 = controller s1" "log s2 = log s1 @ cs2"
    "case r of Inl e \<Rightarrow> cs2 \<noteq> [] \<and> raised E (log s2) = Some e
       | Inr y \<Rightarrow> cs2 = [] \<or> raised E (log s2) = None" "earlier_ok E (log s1) cs2"
    by (auto simp: outcome_ok_def)
  have "log s2 = log s @ (cs1 @ cs2)" using 1 2 by simp
  moreover have "case r of Inl e \<Rightarrow> cs1 @ cs2 \<noteq> [] \<and> raised E (log s2) = Some e
       | Inr y \<Rightarrow> cs1 @ cs2 = [] \<or> raised E (log s2) = None"
    using 1 2 by (cases r) auto
  moreover have "earlier_ok E (log s) (cs1 @ cs2)"
    using 1 2 by (intro earlier_ok_append) auto
  ultimately show ?thesis using 1 2 unfolding outcome_ok_def by auto
qed

lemma sound_bind:
  assumes "sound E m" and "\<And>x. sound E (f x)"
  shows "sound E (bind m f)"
  unfolding sound_def
proof
  fix s
  obtain r s1 where m: "m s = (r, s1)" by (cases "m s")
  have ok1: "outcome_ok E s (r, s1)" using assms(1) m by (metis sound_def)
  show "outcome_ok E s (bind m f s)"
  proof (cases r)
    case (Inl e)
    then show ?thesis using ok1 m by (simp add: bind_def outcome_ok_def)
  next
    case (Inr x)
    have "outcome_ok E s1 (f x s1)" using assms(2) by (simp add: sound_def)
    then have "outcome_ok E s (f x s1)"
      using ok1 Inr outcome_ok_trans [of E s x s1 "fst (f x s1)" "snd (f x s1)"] by simp
    then show ?thesis using m Inr by (simp add: bind_def)
  qed
qed

lemma sound_step_loop: "sound E (step_loop E n)"
  by (induction n) (auto intro: sound_return sound_bind sound_evaluate)



text \<open>
  \<open>get_controller\<close> is not sound in that sense: it sets the controller, and it can raise
  without a call (module missing, no install path). It still only adds calls, at most
  one, and that call raised exactly when it ends with the exception of the call.
\<close>

lemma get_controller_outcome:
  assumes "get_controller E s = (r, s1)"
  shows "\<exists>cs. log s1 = log s @ cs \<and> earlier_ok E (log s) cs
            \<and> (case r of Inl e \<Rightarrow> cs = [] \<or> raised E (log s1) = Some e
                | Inr c \<Rightarrow> cs = [] \<or> raised E (log s1) = None)"
proof -
  have "log s1 = log s @ [] \<and> (\<exists>e. r = Inl e) \<or> log s1 = log s @ [] \<and> (\<exists>c. r = Inr c)
      \<or> (\<exists>d. log s1 = log s @ [Launch d]
            \<and> (case r of Inl e \<Rightarrow> raised E (log s1) = Some e | Inr c \<Rightarrow> raised E (log s1) = None))"
    using assms
    by (auto simp: get_controller_def launch_flexsim_sync_def FlexSimPy_launch_def Let_def
        raised_command split: option.splits if_splits prod.splits sum.splits)
  then show ?thesis
  proof (elim disjE exE conjE)
    fix d assume "log s1 = log s @ [Launch d]"
      "case r of Inl e \<Rightarrow> raised E (log s1) = Some e | Inr c \<Rightarrow> raised E (log s1) = None"
    then have "log s1 = log s @ [Launch d] \<and> earlier_ok E (log s) [Launch d]
            \<and> (case r of Inl e \<Rightarrow> [Launch d] = [] \<or> raised E (log s1) = Some e
                | Inr c \<Rightarrow> [Launch d] = [] \<or> raised E (log s1) = None)"
      by (cases r) simp_all
    then show ?thesis by blast
  next
    fix e assume "log s1 = log s @ []" "r = Inl e"
    then have "log s1 = log s @ [] \<and> earlier_ok E (log s) []
            \<and> (case r of Inl e \<Rightarrow> [] = ([] :: call list) \<or> raised E (log s1) = Some e
                | Inr c \<Rightarrow> [] = ([] :: call list) \<or> raised E (log s1) = None)"
      by simp
    then show ?thesis by blast
  next
    fix c assume "log s1 = log s @ []" "r = Inr c"
    then have "log s1 = log s @ [] \<and> earlier_ok E (log s) []
            \<and> (case r of Inl e \<Rightarrow> [] = ([] :: call list) \<or> raised E (log s1) = Some e
                | Inr c \<Rightarrow> [] = ([] :: call list) \<or> raised E (log s1) = None)"
      by simp
    then show ?thesis by blast
  qed
qed

lemma caught_controller_error:
  assumes "get_controller E s = (Inl e, s1)"
  shows "caught E s (Inl e, s1)"
  using get_controller_outcome [OF assms] by (auto simp: caught_def)

lemma caught_after_controller:
  assumes "get_controller E s = (Inr c, s1)" and "outcome_ok E s1 (r, s2)"
  shows "caught E s (r, s2)"
proof -
  from get_controller_outcome [OF assms(1)] obtain cs1 where 1: "log s1 = log s @ cs1"
    "cs1 = [] \<or> raised E (log s1) = None" "earlier_ok E (log s) cs1"
    by auto
  from assms(2) obtain cs2 where 2: "log s2 = log s1 @ cs2"
    "case r of Inl e \<Rightarrow> cs2 \<noteq> [] \<and> raised E (log s2) = Some e
       | Inr y \<Rightarrow> cs2 = [] \<or> raised E (log s2) = None" "earlier_ok E (log s1) cs2"
    by (auto simp: outcome_ok_def)
  have "log s2 = log s @ (cs1 @ cs2)" using 1 2 by simp
  moreover have "\<forall>e. cs1 @ cs2 \<noteq> [] \<and> raised E (log s2) = Some e \<longrightarrow> r = Inl e"
    using 1 2 by (cases r) auto
  moreover have "earlier_ok E (log s) (cs1 @ cs2)"
    using 1 2 by (intro earlier_ok_append) auto
  ultimately show ?thesis unfolding caught_def by auto
qed

lemma soundD: "sound E m \<Longrightarrow> m s = (r, s') \<Longrightarrow> outcome_ok E s (r, s')"
  by (metis sound_def)

lemma caught_body:
  assumes "sound E rest"
  shows "caught E s (bind (get_controller E) (\<lambda>c. rest) s)"
proof -
  obtain r s1 where g: "get_controller E s = (r, s1)" by (cases "get_controller E s")
  show ?thesis
  proof (cases r)
    case (Inl e)
    with g have "bind (get_controller E) (\<lambda>c. rest) s = (Inl e, s1)" by (simp add: bind_def)
    moreover have "caught E s (Inl e, s1)"
      using caught_controller_error [of E s e s1] g Inl by (simp add: caught_def)
    ultimately show ?thesis by (simp add: caught_def)
  next
    case (Inr c)
    obtain r2 s2 where m: "rest s1 = (r2, s2)" by (cases "rest s1")
    have "outcome_ok E s1 (r2, s2)" by (rule soundD [OF assms m])
    from caught_after_controller [OF g [unfolded Inr] this]
    show ?thesis using g m Inr by (simp add: bind_def)
  qed
qed

lemma try_except_answers:
  assumes "caught E s (body s)"
  shows "answers E s handler (try_except body handler s)"
  using assms
  by (auto simp: caught_def answers_def try_except_def split: prod.splits sum.splits)

section \<open>The polling loop\<close>

lemma controller_time_log: "log (snd (controller_time E s)) = log s @ [Time]"
  by (simp add: controller_time_def Let_def split: sum.split)

lemma controller_time_Inr:
  "controller_time E s = (Inr c, s') \<longleftrightarrow>
     time_reply E (log s @ [Time]) = Inr c \<and> s' = s\<lparr>log := log s @ [Time]\<rparr>"
  by (auto simp: controller_time_def Let_def split: sum.split)

lemma controller_time_Inl:
  "controller_time E s = (Inl e, s') \<longleftrightarrow>
     time_reply E (log s @ [Time]) = Inl e \<and> s' = s\<lparr>log := log s @ [Time]\<rparr>"
  by (auto simp: controller_time_def Let_def split: sum.split)

text \<open>The loop ends as soon as one reading of the clock raises or has reached the target.\<close>

lemma poll_returns:
  assumes "case time_reply E (log s @ replicate (Suc k) Time) of Inl e \<Rightarrow> True | Inr c \<Rightarrow> t \<le> c"
  shows "\<exists>out. poll E t s = Some out"
  using assms
proof (induction k arbitrary: s)
  case 0
  then show ?case
    by (subst poll.simps) (auto simp: controller_time_def Let_def split: sum.splits)
next
  case (Suc k)
  show ?case
  proof (cases "time_reply E (log s @ [Time])")
    case (Inl e)
    then show ?thesis
      by (subst poll.simps) (simp add: controller_time_def Let_def)
  next
    case (Inr c)
    show ?thesis
    proof (cases "t \<le> c")
      case True
      with Inr show ?thesis
        by (subst poll.simps) (simp add: controller_time_def Let_def)
    next
      case False
      let ?s1 = "s\<lparr>log := log s @ [Time]\<rparr>"
      have "log ?s1 @ replicate (Suc k) Time = log s @ replicate (Suc (Suc k)) Time"
        by simp
      with Suc.prems have "case time_reply E (log ?s1 @ replicate (Suc k) Time) of
          Inl e \<Rightarrow> True | Inr c \<Rightarrow> t \<le> c"
        by (simp only:)
      from Suc.IH [OF this] obtain out where "poll E t ?s1 = Some out" by blast
      with Inr False show ?thesis
        by (subst poll.simps) (simp add: controller_time_def Let_def)
    qed
  qed
qed

text \<open>While every reading stays below the target the loop goes on: it never returns.\<close>

lemma poll_diverges:
  assumes "\<forall>k. \<exists>c. time_reply E (log s @ replicate (Suc k) Time) = Inr c \<and> c < t"
  shows "poll E t s = None"
proof (rule ccontr)
  assume "poll E t s \<noteq> None"
  then obtain out where some: "poll E t s = Some out" by blast
  have "(\<forall>k. \<exists>c. time_reply E (log s @ replicate (Suc k) Time) = Inr c \<and> c < t) \<longrightarrow> False"
  proof (rule poll.raw_induct [where P = "\<lambda>E t s out.
      (\<forall>k. \<exists>c. time_reply E (log s @ replicate (Suc k) Time) = Inr c \<and> c < t) \<longrightarrow> False",
      OF _ some], goal_cases)
    case (1 poll E t s out)
    show ?case
    proof
      assume stall: "\<forall>k. \<exists>c. time_reply E (log s @ replicate (Suc k) Time) = Inr c \<and> c < t"
      from stall [rule_format, of 0] obtain c where c: "time_reply E (log s @ [Time]) = Inr c" "c < t"
        by auto
      let ?s1 = "s\<lparr>log := log s @ [Time]\<rparr>"
      from 1(2) c have rec: "poll E t ?s1 = Some out"
        by (simp add: controller_time_def Let_def)
      have "\<forall>k. \<exists>c. time_reply E (log ?s1 @ replicate (Suc k) Time) = Inr c \<and> c < t"
      proof
        fix k
        show "\<exists>c. time_reply E (log ?s1 @ replicate (Suc k) Time) = Inr c \<and> c < t"
          using stall [rule_format, of "Suc k"] by simp
      qed
      with 1(1) [OF rec] show False by blast
    qed
  qed
  with assms show False by blast
qed

lemma poll_None_iff:
  "poll E t s = None \<longleftrightarrow>
     (\<forall>k. \<exists>c. time_reply E (log s @ replicate (Suc k) Time) = Inr c \<and> c < t)"
proof
  assume n: "poll E t s = None"
  show "\<forall>k. \<exists>c. time_reply E (log s @ replicate (Suc k) Time) = Inr c \<and> c < t"
  proof
    fix k
    have "\<not> (case time_reply E (log s @ replicate (Suc k) Time) of Inl e \<Rightarrow> True | Inr c \<Rightarrow> t \<le> c)"
      using poll_returns [where E=E and s=s and k=k and t=t] n by auto
    then show "\<exists>c. time_reply E (log s @ replicate (Suc k) Time) = Inr c \<and> c < t"
      by (cases "time_reply E (log s @ replicate (Suc k) Time)") auto
  qed
next
  assume "\<forall>k. \<exists>c. time_reply E (log s @ replicate (Suc k) Time) = Inr c \<and> c < t"
  then show "poll E t s = None" by (rule poll_diverges)
qed

text \<open>When the loop returns, it has behaved as a sound piece of a tool.\<close>

lemma poll_outcome:
  assumes "poll E t s = Some out"
  shows "outcome_ok E s out"
proof (rule poll.raw_induct [where P = "\<lambda>E t s out. outcome_ok E s out", OF _ assms], goal_cases)
  case (1 poll E t s out)
  obtain r s1 where ct: "controller_time E s = (r, s1)" by (cases "controller_time E s")
  have ok1: "outcome_ok E s (r, s1)" using sound_time [of E] ct by (metis sound_def)
  show ?case
  proof (cases r)
    case (Inl e)
    with 1(2) ct ok1 show ?thesis by (auto simp: outcome_ok_def)
  next
    case (Inr c)
    show ?thesis
    proof (cases "t \<le> c")
      case True
      have "outcome_ok E s1 (issue E Stop s1)"
        using sound_issue [where c=Stop and E=E] by (simp add: sound_def)
      then have "outcome_ok E s (issue E Stop s1)"
        using ok1 Inr outcome_ok_trans [where E=E and s=s and x=c and ?s1.0=s1
            and r="fst (issue E Stop s1)" and ?s2.0="snd (issue E Stop s1)"]
        by simp
      with 1(2) ct Inr True show ?thesis by simp
    next
      case False
      with 1(2) ct Inr have "poll E t s1 = Some out" by simp
      from 1(1) [OF this] have "outcome_ok E s1 out" .
      then show ?thesis
        using ok1 Inr outcome_ok_trans [where E=E and s=s and x=c and ?s1.0=s1
            and r="fst out" and ?s2.0="snd out"] by simp
    qed
  qed
qed

section \<open>Every tool catches what the engine raises\<close>

lemma outcome_ok_value: "outcome_ok E s (Inr x, s') \<Longrightarrow> outcome_ok E s (Inr y, s')"
  by (simp add: outcome_ok_def)

lemma outcome_ok_error: "outcome_ok E s (Inl e :: exn + 'a, s') \<Longrightarrow> outcome_ok E s (Inl e :: exn + 'b, s')"
  by (simp add: outcome_ok_def)

lemma tool_answers:
  assumes "sound E rest"
  shows "answers E s handler (try_except (bind (get_controller E) (\<lambda>c. rest)) handler s)"
  by (rule try_except_answers [OF caught_body [OF assms]])

lemmas sound_intros =
  sound_bind sound_return sound_time sound_evaluate sound_step_loop

lemma sound_cmds:
  "sound E (issue E (Open p))" "sound E (issue E Reset)" "sound E (issue E Run)"
  "sound E (issue E Stop)" "sound E (issue E (RunToTime t))"
  by (simp_all add: sound_issue)

lemma flexsim_open_model_answers: "answers E s format_error (flexsim_open_model E p s)"
  unfolding flexsim_open_model_def by (rule tool_answers) (intro sound_intros sound_cmds)

lemma flexsim_reset_answers: "answers E s format_error (flexsim_reset E s)"
  unfolding flexsim_reset_def by (rule tool_answers) (intro sound_intros sound_cmds)

lemma flexsim_run_answers: "answers E s format_error (flexsim_run E s)"
  unfolding flexsim_run_def by (rule tool_answers) (intro sound_intros sound_cmds)

lemma flexsim_stop_answers: "answers E s format_error (flexsim_stop E s)"
  unfolding flexsim_stop_def by (rule tool_answers) (intro sound_intros sound_cmds)

lemma flexsim_get_time_answers: "answers E s format_error (flexsim_get_time E s)"
  unfolding flexsim_get_time_def by (rule tool_answers) (intro sound_intros sound_cmds)

lemma flexsim_step_answers: "answers E s format_error (flexsim_step E n s)"
  unfolding flexsim_step_def by (rule tool_answers) (intro sound_intros sound_cmds)

lemma flexsim_evaluate_answers:
  "answers E s (\<lambda>e. str ''Script error: '' @ format_error e) (flexsim_evaluate E script s)"
  unfolding flexsim_evaluate_def by (rule tool_answers) (intro sound_intros sound_cmds)

lemma flexsim_get_node_value_answers: "answers E s format_error (flexsim_get_node_value E p s)"
  unfolding flexsim_get_node_value_def by (rule tool_answers) (intro sound_intros sound_cmds)

lemma flexsim_set_node_value_answers: "answers E s format_error (flexsim_set_node_value E p v s)"
  unfolding flexsim_set_node_value_def
proof (rule tool_answers)
  show "sound E (case v of None \<Rightarrow> return (str ''Error: No value provided'')
        | Some x \<Rightarrow>
            bind (controller_evaluate E (setvalue_script p x)) (\<lambda>_.
            bind (controller_evaluate E (getvalue_script p)) (\<lambda>new_value.
            return (check_mark @ str '' '' @ p @ str '' = '' @ new_value))))"
    by (cases v) (auto intro!: sound_intros)
qed

lemma flexsim_save_model_answers: "answers E s format_error (flexsim_save_model E p s)"
  unfolding flexsim_save_model_def
  by (rule tool_answers) (auto split: option.split intro!: sound_intros)

lemma flexsim_new_model_answers: "answers E s format_error (flexsim_new_model E s)"
  unfolding flexsim_new_model_def by (rule tool_answers) (intro sound_intros sound_cmds)

lemma flexsim_compile_answers: "answers E s format_error (flexsim_compile E s)"
  unfolding flexsim_compile_def by (rule tool_answers) (intro sound_intros sound_cmds)

lemma flexsim_get_statistics_answers: "answers E s format_error (flexsim_get_statistics E s)"
  unfolding flexsim_get_statistics_def by (rule tool_answers) (intro sound_intros sound_cmds)

lemma flexsim_export_results_answers: "answers E s format_error (flexsim_export_results E p f s)"
  unfolding flexsim_export_results_def by (rule tool_answers) (intro sound_intros sound_cmds)

subsection \<open>Run to time\<close>

lemma run_body_outcome:
  assumes "run_body E t fm s = Some out"
  shows "outcome_ok E s out"
proof (cases fm)
  case True
  with assms have "out = issue E (RunToTime t) s" by (simp add: run_body_def)
  then show ?thesis using sound_cmds(5) [of E t] by (simp add: sound_def)
next
  case False
  let ?m = "bind (controller_evaluate E (str ''setstoptime('' @ float_str E t @ str '')''))
              (\<lambda>_. issue E Run)"
  have sm: "sound E ?m" by (intro sound_intros sound_cmds)
  obtain r s1 where m: "?m s = (r, s1)" by (cases "?m s")
  have ok1: "outcome_ok E s (r, s1)" by (rule soundD [OF sm m])
  show ?thesis
  proof (cases r)
    case (Inl e)
    with assms False m have "out = (Inl e, s1)" by (simp add: run_body_def)
    with ok1 Inl show ?thesis by (simp add: outcome_ok_def)
  next
    case (Inr u)
    with assms False m have "poll E t s1 = Some out" by (simp add: run_body_def)
    then have "outcome_ok E s1 out" by (rule poll_outcome)
    then show ?thesis
      using ok1 Inr outcome_ok_trans [where E=E and s=s and x=u and ?s1.0=s1
          and r="fst out" and ?s2.0="snd out"] by simp
  qed
qed

lemma run_report_sound: "sound E (run_report E fm start)"
  unfolding run_report_def by (intro sound_intros)

lemma run_to_time_body_caught:
  assumes "run_to_time_body E t fm s = Some out"
  shows "caught E s out"
proof -
  obtain g s1 where gc: "get_controller E s = (g, s1)" by (cases "get_controller E s")
  show ?thesis
  proof (cases g)
    case (Inl e)
    with assms gc have "out = (Inl e, s1)" by (simp add: run_to_time_body_def bind_def)
    then show ?thesis using caught_controller_error gc Inl by (simp add: caught_def)
  next
    case gr: (Inr c)
    obtain r s2 where ct: "controller_time E s1 = (r, s2)" by (cases "controller_time E s1")
    have ok2: "outcome_ok E s1 (r, s2)" by (rule soundD [OF sound_time ct])
    have "outcome_ok E s1 out"
    proof (cases r)
      case (Inl e)
      with assms gc gr ct have "out = (Inl e, s2)" by (simp add: run_to_time_body_def bind_def)
      with ok2 Inl show ?thesis by (simp add: outcome_ok_def)
    next
      case (Inr start)
      show ?thesis
      proof (cases "t \<le> start")
        case True
        with assms gc gr ct Inr
        have "out = (Inr (str ''Already at time '' @ format_time (float_round E) start), s2)"
          by (simp add: run_to_time_body_def bind_def)
        with ok2 Inr show ?thesis by (simp add: outcome_ok_def)
      next
        case False
        with assms gc gr ct Inr obtain b s3 where rb: "run_body E t fm s2 = Some (b, s3)"
          by (auto simp: run_to_time_body_def bind_def split: option.splits)
        have ok3: "outcome_ok E s2 (b, s3)" by (rule run_body_outcome [OF rb])
        show ?thesis
        proof (cases b)
          case (Inl e)
          with assms gc gr ct Inr False rb have "out = (Inl e, s3)"
            by (simp add: run_to_time_body_def bind_def)
          moreover have "outcome_ok E s1 (b, s3)"
            by (rule outcome_ok_trans [OF ok2 [unfolded Inr] ok3])
          ultimately show ?thesis using Inl by (simp add: outcome_ok_def)
        next
          case br: (Inr u)
          with assms gc gr ct Inr False rb have o: "out = run_report E fm start s3"
            by (simp add: run_to_time_body_def bind_def)
          have "outcome_ok E s3 (run_report E fm start s3)"
            using run_report_sound by (simp add: sound_def)
          then have "outcome_ok E s2 (run_report E fm start s3)"
            using ok3 br outcome_ok_trans [where E=E and s=s2 and x=u and ?s1.0=s3
                and r="fst (run_report E fm start s3)" and ?s2.0="snd (run_report E fm start s3)"]
            by simp
          then show ?thesis
            using ok2 Inr o outcome_ok_trans [where E=E and s=s1 and x=start and ?s1.0=s2
                and r="fst out" and ?s2.0="snd out"]
            by simp
        qed
      qed
    qed
    then show ?thesis
      using caught_after_controller [OF gc [unfolded gr], of "fst out" "snd out"] by simp
  qed
qed

lemma flexsim_run_to_time_answers:
  assumes "flexsim_run_to_time E t fm s = Some out"
  shows "answers E s format_error out"
proof -
  from assms obtain b where b: "run_to_time_body E t fm s = Some b"
    and t: "out = try_except (\<lambda>_. b) format_error s"
    by (auto simp: flexsim_run_to_time_def split: option.splits)
  have "caught E s ((\<lambda>_. b) s)" using run_to_time_body_caught [OF b] by simp
  from try_except_answers [OF this] t show ?thesis by simp
qed

text \<open>The tool does not return only when the polling loop of the real-time mode goes on.\<close>

lemma flexsim_run_to_time_None:
  assumes "flexsim_run_to_time E t fm s = None"
  shows "\<not> fm \<and> (\<exists>h. \<forall>k. \<exists>c. time_reply E (h @ replicate (Suc k) Time) = Inr c \<and> c < t)"
proof -
  from assms have b: "run_to_time_body E t fm s = None"
    by (simp add: flexsim_run_to_time_def split: option.splits)
  then obtain s2 where rb: "run_body E t fm s2 = None"
    by (auto simp: run_to_time_body_def split: prod.splits sum.splits if_splits option.splits)
  then have nf: "\<not> fm" by (auto simp: run_body_def)
  with rb obtain s3 where "poll E t s3 = None"
    by (auto simp: run_body_def split: prod.splits sum.splits)
  then have "\<forall>k. \<exists>c. time_reply E (log s3 @ replicate (Suc k) Time) = Inr c \<and> c < t"
    by (simp add: poll_None_iff)
  with nf show ?thesis by blast
qed

subsection \<open>Requests\<close>

lemma respond_eq: "respond r = Some (Text text, s') \<longleftrightarrow> r = (text, s')"
  by (cases r) (simp add: respond_def)

lemma respond_not_Rejected: "respond r \<noteq> Some (Rejected err, s')"
  by (simp add: respond_def)

lemma respond_not_None: "respond r \<noteq> None"
  by (simp add: respond_def)

lemma handle_None:
  assumes "handle E req s = None"
  shows "\<exists>t fm h. req = RunToTimeReq t fm \<and> fm \<noteq> Some True
           \<and> (\<forall>k. \<exists>c. time_reply E (h @ replicate (Suc k) Time) = Inr c \<and> c < t)"
proof (cases req)
  case (RunToTimeReq t fm)
  with assms obtain f where v: "RunToTimeInput t fm = Inr (t, f)"
    and n: "flexsim_run_to_time E t f s = None"
    by (auto simp: RunToTimeInput_def respond_not_None split: if_splits option.splits)
  from flexsim_run_to_time_None [OF n]
  have "\<not> f" and h: "\<exists>h. \<forall>k. \<exists>c. time_reply E (h @ replicate (Suc k) Time) = Inr c \<and> c < t"
    by blast+
  with v have "fm \<noteq> Some True" by (auto simp: RunToTimeInput_def split: if_splits)
  with h RunToTimeReq show ?thesis by blast
qed (use assms in \<open>auto simp: respond_not_None split: sum.splits prod.splits\<close>)

lemma handle_Rejected:
  assumes "handle E req s = Some (Rejected err, s')"
  shows "s' = s"
  using assms
  by (cases req)
    (auto simp: respond_not_Rejected respond_def split: sum.splits prod.splits option.splits)

lemma handle_Text:
  assumes "handle E req s = Some (Text text, s')"
  shows "answers E s (\<lambda>e. error_prefix req @ format_error e) (text, s')"
proof (cases req)
  case (OpenModel p)
  with assms obtain q where "flexsim_open_model E q s = (text, s')"
    by (auto simp: respond_eq split: sum.splits)
  from this flexsim_open_model_answers [of E s q] OpenModel show ?thesis by simp
next
  case ResetSim
  with assms have "flexsim_reset E s = (text, s')" by (simp add: respond_eq)
  from this flexsim_reset_answers [of E s] ResetSim show ?thesis by simp
next
  case RunSim
  with assms have "flexsim_run E s = (text, s')" by (simp add: respond_eq)
  from this flexsim_run_answers [of E s] RunSim show ?thesis by simp
next
  case (RunToTimeReq t fm)
  with assms obtain u f where "flexsim_run_to_time E u f s = Some (text, s')"
    by (auto simp: respond_eq split: sum.splits prod.splits option.splits)
  from flexsim_run_to_time_answers [OF this] RunToTimeReq show ?thesis by simp
next
  case StopSim
  with assms have "flexsim_stop E s = (text, s')" by (simp add: respond_eq)
  from this flexsim_stop_answers [of E s] StopSim show ?thesis by simp
next
  case GetTime
  with assms have "flexsim_get_time E s = (text, s')" by (simp add: respond_eq)
  from this flexsim_get_time_answers [of E s] GetTime show ?thesis by simp
next
  case (Step n)
  with assms obtain m where "flexsim_step E m s = (text, s')"
    by (auto simp: respond_eq split: sum.splits)
  from this flexsim_step_answers [of E s m] Step show ?thesis by simp
next
  case (EvaluateReq script)
  with assms obtain q where "flexsim_evaluate E q s = (text, s')"
    by (auto simp: respond_eq split: sum.splits)
  from this flexsim_evaluate_answers [of E s q] EvaluateReq show ?thesis by simp
next
  case (GetNodeValue p v)
  with assms obtain q where "flexsim_get_node_value E q s = (text, s')"
    by (auto simp: respond_eq split: sum.splits prod.splits)
  from this flexsim_get_node_value_answers [of E s q] GetNodeValue show ?thesis by simp
next
  case (SetNodeValue p v)
  with assms obtain q x where "flexsim_set_node_value E q x s = (text, s')"
    by (auto simp: respond_eq split: sum.splits prod.splits)
  from this flexsim_set_node_value_answers [of E s q x] SetNodeValue show ?thesis by simp
next
  case (SaveModel p)
  with assms have "flexsim_save_model E p s = (text, s')" by (simp add: respond_eq)
  from this flexsim_save_model_answers [of E s p] SaveModel show ?thesis by simp
next
  case NewModel
  with assms have "flexsim_new_model E s = (text, s')" by (simp add: respond_eq)
  from this flexsim_new_model_answers [of E s] NewModel show ?thesis by simp
next
  case Compile
  with assms have "flexsim_compile E s = (text, s')" by (simp add: respond_eq)
  from this flexsim_compile_answers [of E s] Compile show ?thesis by simp
next
  case GetStatistics
  with assms have "flexsim_get_statistics E s = (text, s')" by (simp add: respond_eq)
  from this flexsim_get_statistics_answers [of E s] GetStatistics show ?thesis by simp
next
  case (ExportResults p f)
  with assms obtain q g where "flexsim_export_results E q g s = (text, s')"
    by (auto simp: respond_eq split: sum.splits prod.splits)
  from this flexsim_export_results_answers [of E s q g] ExportResults show ?thesis by simp
qed

text \<open>
  What the tools do with an exception of the engine. A request that is answered by a text
  appended calls to the log; every call but the last was answered without an exception,
  and when the last one raised \<open>e\<close> the text is \<open>format_error e\<close> (after
  \<open>Script error: \<close> for evaluate). So an exception of any engine call ends the request
  with its formatted text, and no tool goes on after one. \<open>format_error\<close> chooses the
  category by the first of \<open>not found\<close>, \<open>syntax\<close>, \<open>license\<close>, \<open>permission\<close> that
  occurs in the lowered message, \<open>Error\<close> otherwise. A request is answered by a text or
  rejected by validation with the session untouched. A request that is not answered at
  all is a run to time in real-time mode whose polling loop reads a clock that stays below
  the target for ever.
\<close>

lemma engine_errors_are_answered:
  "(handle E req s = None \<longrightarrow>
      (\<exists>t fm h. req = RunToTimeReq t fm \<and> fm \<noteq> Some True
         \<and> (\<forall>k. \<exists>c. time_reply E (h @ replicate (Suc k) Time) = Inr c \<and> c < t)))
   \<and> (handle E req s = Some (Text text, s') \<longrightarrow>
        (\<exists>cs. log s' = log s @ cs
           \<and> (\<forall>k. Suc k < length cs \<longrightarrow> raised E (log s @ take (Suc k) cs) = None)
           \<and> (\<forall>e. cs \<noteq> [] \<and> raised E (log s') = Some e \<longrightarrow>
                 text = error_prefix req @ format_error e)))
   \<and> (handle E req s = Some (Rejected err, s') \<longrightarrow> s' = s)
   \<and> format_error (Exn c msg) =
       (if sublist (str ''not found'') (lower msg) then str ''Not found: '' @ msg
        else if sublist (str ''syntax'') (lower msg) then str ''FlexScript syntax error: '' @ msg
        else if sublist (str ''license'') (lower msg) then str ''License error: '' @ msg
        else if sublist (str ''permission'') (lower msg) then str ''Permission denied: '' @ msg
        else str ''Error: '' @ msg)"
proof -
  have "handle E req s = Some (Text text, s') \<longrightarrow>
        (\<exists>cs. log s' = log s @ cs
           \<and> (\<forall>k. Suc k < length cs \<longrightarrow> raised E (log s @ take (Suc k) cs) = None)
           \<and> (\<forall>e. cs \<noteq> [] \<and> raised E (log s') = Some e \<longrightarrow>
                 text = error_prefix req @ format_error e))"
    using handle_Text [of E req s "text" s'] by (simp add: answers_def earlier_ok_def)
  then show ?thesis
    using handle_None [of E req s] handle_Rejected [of E req s err s']
    by (simp add: format_error_def)
qed

lemma running_simps: "controller running = Some 0" "log running = [Launch (str ''C:/FlexSim/program'')]"
  by (simp_all add: running_def)

lemma license_expired_category:
  "\<not> sublist (str ''not found'') (lower (str ''License expired''))"
  "\<not> sublist (str ''syntax'') (lower (str ''License expired''))"
  "sublist (str ''license'') (lower (str ''License expired''))"
  by code_simp+

lemma engine_errors_are_answered_example:
  "handle (double (\<lambda>h. Some license_expired) (\<lambda>h. Inr 0) []) ResetSim running
     = Some (Text (str ''License error: '' @ str ''License expired''),
             running\<lparr>log := log running @ [Reset]\<rparr>)
   \<and> raised (double (\<lambda>h. Some license_expired) (\<lambda>h. Inr 0) []) (log running @ [Reset])
       = Some license_expired"
proof -
  let ?E = "double (\<lambda>h. Some license_expired) (\<lambda>h. Inr 0) []"
  let ?s' = "running\<lparr>log := log running @ [Reset]\<rparr>"
  have r: "raised ?E (log ?s') = Some license_expired"
    by (simp add: raised_command double_simps)
  obtain t where h: "handle ?E ResetSim running = Some (Text t, ?s')"
    by (simp add: flexsim_reset_def try_except_def bind_def get_controller_present running_simps
        issue_def Let_def double_simps respond_def)
  have "t = error_prefix ResetSim @ format_error license_expired"
    using engine_errors_are_answered [of ?E ResetSim running t ?s'] h r by simp
  moreover have "format_error license_expired = str ''License error: '' @ str ''License expired''"
    using engine_errors_are_answered [of ?E ResetSim running t ?s' _ EngineError "str ''License expired''"]
      license_expired_category
    by (simp add: license_expired_def)
  ultimately show ?thesis using h r by simp
qed

text \<open>
  C1. The claim says that every tool is a total function from a validated request to a
  text. The real-time branch of \<open>flexsim_run_to_time\<close> is not: its loop is written
  \<open>while True\<close> and leaves only when the clock has reached the target, although its own
  comment reads ``Poll until target time reached or simulation stops''. With a controller
  present and an engine that answers every call without an exception but whose clock
  stays at 0 (a run that stopped before the target), the request for target time 10 with
  \<open>fast_mode\<close> left at its default sets the stop time, starts the run and then polls the
  clock for ever: \<open>handle\<close> has no response, neither a text nor a rejection.
\<close>

theorem run_to_time_realtime_never_returns:
  "handle (double (\<lambda>h. None) (\<lambda>h. Inr 0) []) (RunToTimeReq 10 None) running = None"
proof -
  let ?E = "double (\<lambda>h. None) (\<lambda>h. Inr 0) []"
  have p: "poll ?E 10 s = None" for s
    by (rule poll_diverges) (simp add: double_simps)
  show ?thesis
    by (simp add: RunToTimeInput_def flexsim_run_to_time_def run_to_time_body_def run_body_def
        bind_def get_controller_present running_simps controller_time_def
        controller_evaluate_def issue_def Let_def double_simps p)
qed

section \<open>Run to a time that is already reached\<close>

lemma get_controller_fresh:
  assumes "get_controller E s = (Inr c, s1)"
  shows "(controller s \<noteq> None \<longrightarrow> s1 = s)
       \<and> (controller s = None \<longrightarrow> (\<exists>d. log s1 = log s @ [Launch d]))"
  using assms
  by (auto simp: get_controller_def launch_flexsim_sync_def FlexSimPy_launch_def Let_def
      split: option.splits if_splits prod.splits sum.splits)

lemma get_controller_launch:
  assumes "controller s = None" and "module_loaded E" and "path_exists E (install_path E)"
    and "cmd_reply E (log s @ [Launch (install_path E)]) = None"
  shows "get_controller E s
           = (Inr (length (log s)),
              s\<lparr>log := log s @ [Launch (install_path E)], controller := Some (length (log s))\<rparr>)"
  using assms
  by (simp add: get_controller_def launch_flexsim_sync_def FlexSimPy_launch_def Let_def)

lemma run_to_time_body_controller_error:
  assumes "get_controller E s = (Inl e, s1)"
  shows "run_to_time_body E t f s = Some (Inl e, s1)"
  using assms by (simp add: run_to_time_body_def bind_def)

lemma run_to_time_body_time_error:
  assumes "get_controller E s = (Inr c, s1)" and "time_reply E (log s1 @ [Time]) = Inl e"
  shows "run_to_time_body E t f s = Some (Inl e, s1\<lparr>log := log s1 @ [Time]\<rparr>)"
  using assms by (simp add: run_to_time_body_def bind_def controller_time_def Let_def)

lemma run_to_time_body_already:
  assumes "get_controller E s = (Inr c, s1)" and "time_reply E (log s1 @ [Time]) = Inr start"
    and "t \<le> start"
  shows "run_to_time_body E t f s
          = Some (Inr (str ''Already at time '' @ format_time (float_round E) start),
                  s1\<lparr>log := log s1 @ [Time]\<rparr>)"
  using assms by (simp add: run_to_time_body_def bind_def controller_time_def Let_def)

lemma handle_run_to_time:
  assumes "0 < t" and "run_to_time_body E t (case fm of None \<Rightarrow> False | Some b \<Rightarrow> b) s = Some (r, s')"
  shows "handle E (RunToTimeReq t fm) s
           = Some (Text (case r of Inl e \<Rightarrow> format_error e | Inr x \<Rightarrow> x), s')"
  using assms
  by (simp add: RunToTimeInput_def flexsim_run_to_time_def try_except_def respond_def
      split: sum.split)

text \<open>
  C2, as the code has it. A run-to-time request whose target is not above 0 is rejected by
  validation, and the session is untouched. For a target above 0 the tool first acquires
  the controller (which launches the engine only if no controller exists yet) and then
  reads the clock with one call to \<open>time()\<close>. If the acquisition or that call raises, the
  response is the formatted error. If the call returns a time at or above the target, the
  response is \<open>Already at time ...\<close> and nothing else is issued to the engine: the \<open>time()\<close>
  read is the one call appended to the log, and no \<open>runToTime\<close>, \<open>evaluate\<close>, \<open>run\<close> or
  \<open>stop\<close> follows it.
\<close>

theorem run_to_time_already_reached:
  "(\<not> 0 < t \<longrightarrow> handle E (RunToTimeReq t fm) s = Some (Rejected GreaterThan, s))
   \<and> (0 < t \<and> get_controller E s = (Inl e, s1) \<longrightarrow>
        handle E (RunToTimeReq t fm) s = Some (Text (format_error e), s1))
   \<and> (0 < t \<and> get_controller E s = (Inr c, s1) \<and> time_reply E (log s1 @ [Time]) = Inl e \<longrightarrow>
        handle E (RunToTimeReq t fm) s
          = Some (Text (format_error e), s1\<lparr>log := log s1 @ [Time]\<rparr>))
   \<and> (0 < t \<and> get_controller E s = (Inr c, s1) \<and> time_reply E (log s1 @ [Time]) = Inr start
        \<and> t \<le> start \<longrightarrow>
        handle E (RunToTimeReq t fm) s
          = Some (Text (str ''Already at time '' @ format_time (float_round E) start),
                  s1\<lparr>log := log s1 @ [Time]\<rparr>))
   \<and> (get_controller E s = (Inr c, s1) \<longrightarrow>
        (controller s \<noteq> None \<longrightarrow> s1 = s)
        \<and> (controller s = None \<longrightarrow> (\<exists>d. log s1 = log s @ [Launch d])))
   \<and> (controller s = Some c \<longrightarrow> get_controller E s = (Inr c, s))
   \<and> (controller s = None \<and> module_loaded E \<and> path_exists E (install_path E)
        \<and> cmd_reply E (log s @ [Launch (install_path E)]) = None \<longrightarrow>
        get_controller E s
          = (Inr (length (log s)),
             s\<lparr>log := log s @ [Launch (install_path E)], controller := Some (length (log s))\<rparr>))
   \<and> (0 < t \<and> controller s = Some c \<and> time_reply E (log s @ [Time]) = Inr start \<and> t \<le> start \<longrightarrow>
        handle E (RunToTimeReq t fm) s
          = Some (Text (str ''Already at time '' @ format_time (float_round E) start),
                  s\<lparr>log := log s @ [Time]\<rparr>))"
proof (intro conjI impI)
  assume "\<not> 0 < t"
  then show "handle E (RunToTimeReq t fm) s = Some (Rejected GreaterThan, s)"
    by (simp add: RunToTimeInput_def)
next
  assume a: "0 < t \<and> get_controller E s = (Inl e, s1)"
  then have "run_to_time_body E t f s = Some (Inl e, s1)" for f
    by (simp add: run_to_time_body_controller_error)
  from handle_run_to_time [OF _ this] a
  show "handle E (RunToTimeReq t fm) s = Some (Text (format_error e), s1)" by simp
next
  assume a: "0 < t \<and> get_controller E s = (Inr c, s1) \<and> time_reply E (log s1 @ [Time]) = Inl e"
  then have "run_to_time_body E t f s = Some (Inl e, s1\<lparr>log := log s1 @ [Time]\<rparr>)" for f
    by (simp add: run_to_time_body_time_error)
  from handle_run_to_time [OF _ this] a
  show "handle E (RunToTimeReq t fm) s = Some (Text (format_error e), s1\<lparr>log := log s1 @ [Time]\<rparr>)"
    by simp
next
  assume a: "0 < t \<and> get_controller E s = (Inr c, s1) \<and> time_reply E (log s1 @ [Time]) = Inr start
        \<and> t \<le> start"
  then have "run_to_time_body E t f s
          = Some (Inr (str ''Already at time '' @ format_time (float_round E) start),
                  s1\<lparr>log := log s1 @ [Time]\<rparr>)" for f
    by (simp add: run_to_time_body_already)
  from handle_run_to_time [OF _ this] a
  show "handle E (RunToTimeReq t fm) s
          = Some (Text (str ''Already at time '' @ format_time (float_round E) start),
                  s1\<lparr>log := log s1 @ [Time]\<rparr>)"
    by simp
next
  assume g: "get_controller E s = (Inr c, s1)" and "controller s \<noteq> None"
  with get_controller_fresh [OF g] show "s1 = s" by simp
next
  assume g: "get_controller E s = (Inr c, s1)" and "controller s = None"
  with get_controller_fresh [OF g] show "\<exists>d. log s1 = log s @ [Launch d]" by simp
next
  assume "controller s = Some c"
  then show "get_controller E s = (Inr c, s)" by (rule get_controller_present)
next
  assume "controller s = None \<and> module_loaded E \<and> path_exists E (install_path E)
        \<and> cmd_reply E (log s @ [Launch (install_path E)]) = None"
  then show "get_controller E s
          = (Inr (length (log s)),
             s\<lparr>log := log s @ [Launch (install_path E)], controller := Some (length (log s))\<rparr>)"
    by (simp add: get_controller_launch)
next
  assume a: "0 < t \<and> controller s = Some c \<and> time_reply E (log s @ [Time]) = Inr start \<and> t \<le> start"
  then have g: "get_controller E s = (Inr c, s)" by (simp add: get_controller_present)
  have "run_to_time_body E t f s
          = Some (Inr (str ''Already at time '' @ format_time (float_round E) start),
                  s\<lparr>log := log s @ [Time]\<rparr>)" for f
    using a by (simp add: run_to_time_body_already [OF g])
  from handle_run_to_time [OF _ this] a
  show "handle E (RunToTimeReq t fm) s
          = Some (Text (str ''Already at time '' @ format_time (float_round E) start),
                  s\<lparr>log := log s @ [Time]\<rparr>)"
    by simp
qed

lemma double_float_round: "float_round (double cmd clock present) = (\<lambda>x. x)"
  by (simp add: double_def)

lemma fmt2_30: "fmt2 30 = str ''30.00''"
proof -
  have "fmt2 30 = str_nat (3000 div 100) @ str ''.'' @ [digit_cp (3000 mod 100 div 10), digit_cp (3000 mod 10)]"
    by (rule fmt2_near) simp_all
  then show ?thesis by (simp add: str_def str_nat.simps digit_cp_def)
qed

lemma already_at_30:
  "str ''Already at time '' @ format_time (\<lambda>x. x) 30 = str ''Already at time 30.00s''"
  by (simp add: format_time_def fmt2_30) (simp add: str_def)

theorem run_to_time_already_reached_witness:
  "handle (double (\<lambda>h. None) (\<lambda>h. Inr 30) []) (RunToTimeReq 10 None) running
     = Some (Text (str ''Already at time 30.00s''), running\<lparr>log := log running @ [Time]\<rparr>)
   \<and> handle (double (\<lambda>h. None) (\<lambda>h. Inr 30) []) (RunToTimeReq 0 None) running
       = Some (Rejected GreaterThan, running)
   \<and> handle (double (\<lambda>h. None) (\<lambda>h. Inl license_expired) []) (RunToTimeReq 10 None) running
       = Some (Text (format_error license_expired), running\<lparr>log := log running @ [Time]\<rparr>)"
proof -
  let ?E = "double (\<lambda>h. None) (\<lambda>h. Inr 30) []"
  let ?F = "double (\<lambda>h. None) (\<lambda>h. Inl license_expired) []"
  have g: "get_controller E running = (Inr 0, running)" for E
    by (simp add: get_controller_present running_simps)
  have t: "time_reply ?E (log running @ [Time]) = Inr 30" by (simp add: double_simps)
  have u: "time_reply ?F (log running @ [Time]) = Inl license_expired" by (simp add: double_simps)
  have a: "handle ?E (RunToTimeReq 10 None) running
     = Some (Text (str ''Already at time 30.00s''), running\<lparr>log := log running @ [Time]\<rparr>)"
    using run_to_time_already_reached [of 10 ?E None running _ running 0 30] g t already_at_30
    by (simp add: double_float_round)
  have b: "handle ?E (RunToTimeReq 0 None) running = Some (Rejected GreaterThan, running)"
    using run_to_time_already_reached [of 0 ?E None running] by simp
  have c: "handle ?F (RunToTimeReq 10 None) running
       = Some (Text (format_error license_expired), running\<lparr>log := log running @ [Time]\<rparr>)"
    using run_to_time_already_reached [of 10 ?F None running license_expired running 0] g u
    by simp
  from a b c show ?thesis by simp
qed

text \<open>
  The claim as stated fails where it says that no engine call is issued: the clock is
  read from the engine. With a controller present, the clock at 30 and the target 10, the
  no-op response comes with one call in the log, \<open>time()\<close>.
\<close>

theorem run_to_time_reads_clock_counterexample:
  "handle (double (\<lambda>h. None) (\<lambda>h. Inr 30) []) (RunToTimeReq 10 None) running
     = Some (Text (str ''Already at time 30.00s''),
             \<lparr>controller = Some 0, log = [Launch (str ''C:/FlexSim/program''), Time]\<rparr>)
   \<and> log running = [Launch (str ''C:/FlexSim/program'')]"
proof -
  let ?E = "double (\<lambda>h. None) (\<lambda>h. Inr 30) []"
  have "run_to_time_body ?E 10 False running
          = Some (Inr (str ''Already at time '' @ format_time (\<lambda>x. x) 30),
                  running\<lparr>log := log running @ [Time]\<rparr>)"
    by (simp add: run_to_time_body_def bind_def controller_time_def Let_def
        get_controller_present running_simps double_simps double_float_round)
  then show ?thesis
    by (simp add: RunToTimeInput_def flexsim_run_to_time_def try_except_def respond_def
        already_at_30 running_def)
qed

section \<open>Stepping\<close>

text \<open>The loop when the first \<open>m\<close> step commands are answered: all \<open>m\<close> are issued.\<close>

lemma step_loop_healthy:
  assumes "\<forall>k<m. \<exists>r. eval_reply E (log s @ replicate (Suc k) (Evaluate (str ''step()''))) = Inr r"
  shows "step_loop E m s = (Inr (), s\<lparr>log := log s @ replicate m (Evaluate (str ''step()''))\<rparr>)"
  using assms
proof (induction m arbitrary: s)
  case 0
  show ?case by (simp add: return_def)
next
  case (Suc m)
  let ?c = "Evaluate (str ''step()'')"
  let ?s1 = "s\<lparr>log := log s @ [?c]\<rparr>"
  from Suc.prems [rule_format, of 0] obtain r where r: "eval_reply E (log s @ [?c]) = Inr r"
    by auto
  have "\<forall>k<m. \<exists>r. eval_reply E (log ?s1 @ replicate (Suc k) ?c) = Inr r"
  proof (intro allI impI)
    fix k assume "k < m"
    with Suc.prems [rule_format, of "Suc k"] show "\<exists>r. eval_reply E (log ?s1 @ replicate (Suc k) ?c) = Inr r"
      by simp
  qed
  from Suc.IH [OF this] r show ?case
    by (simp add: bind_def controller_evaluate_def Let_def)
qed

text \<open>The loop when step command \<open>j + 1\<close> is the first to raise: it is the last one issued.\<close>

lemma step_loop_raises:
  assumes "j < m"
    and "\<forall>k<j. \<exists>r. eval_reply E (log s @ replicate (Suc k) (Evaluate (str ''step()''))) = Inr r"
    and "eval_reply E (log s @ replicate (Suc j) (Evaluate (str ''step()''))) = Inl e"
  shows "step_loop E m s = (Inl e, s\<lparr>log := log s @ replicate (Suc j) (Evaluate (str ''step()''))\<rparr>)"
  using assms
proof (induction m arbitrary: s j)
  case 0
  then show ?case by simp
next
  case (Suc m)
  let ?c = "Evaluate (str ''step()'')"
  let ?s1 = "s\<lparr>log := log s @ [?c]\<rparr>"
  show ?case
  proof (cases j)
    case 0
    with Suc.prems(3) show ?thesis
      by (simp add: bind_def controller_evaluate_def Let_def)
  next
    case (Suc i)
    from Suc.prems(2) [rule_format, of 0] Suc obtain r where r: "eval_reply E (log s @ [?c]) = Inr r"
      by auto
    have 1: "i < m" using Suc.prems(1) Suc by simp
    have 2: "\<forall>k<i. \<exists>r. eval_reply E (log ?s1 @ replicate (Suc k) ?c) = Inr r"
    proof (intro allI impI)
      fix k assume "k < i"
      with Suc.prems(2) [rule_format, of "Suc k"] Suc
      show "\<exists>r. eval_reply E (log ?s1 @ replicate (Suc k) ?c) = Inr r" by simp
    qed
    have 3: "eval_reply E (log ?s1 @ replicate (Suc i) ?c) = Inl e"
      using Suc.prems(3) Suc by simp
    from Suc.IH [OF 1 2 3] r Suc show ?thesis
      by (simp add: bind_def controller_evaluate_def Let_def)
  qed
qed

lemma flexsim_step_controller_error:
  assumes "get_controller E s = (Inl e, s1)"
  shows "flexsim_step E n s = (format_error e, s1)"
  using assms by (simp add: flexsim_step_def try_except_def bind_def)

lemma flexsim_step_time_error:
  assumes "get_controller E s = (Inr c, s1)" and "time_reply E (log s1 @ [Time]) = Inl e"
  shows "flexsim_step E n s = (format_error e, s1\<lparr>log := log s1 @ [Time]\<rparr>)"
  using assms
  by (simp add: flexsim_step_def try_except_def bind_def controller_time_def Let_def)

lemma flexsim_step_raises:
  assumes "get_controller E s = (Inr c, s1)" and "time_reply E (log s1 @ [Time]) = Inr start"
    and "j < nat n"
    and "\<forall>k<j. \<exists>r. eval_reply E (log s1 @ Time # replicate (Suc k) (Evaluate (str ''step()''))) = Inr r"
    and "eval_reply E (log s1 @ Time # replicate (Suc j) (Evaluate (str ''step()''))) = Inl e"
  shows "flexsim_step E n s
           = (format_error e, s1\<lparr>log := log s1 @ Time # replicate (Suc j) (Evaluate (str ''step()''))\<rparr>)"
proof -
  let ?s2 = "s1\<lparr>log := log s1 @ [Time]\<rparr>"
  have "step_loop E (nat n) ?s2
          = (Inl e, ?s2\<lparr>log := log ?s2 @ replicate (Suc j) (Evaluate (str ''step()''))\<rparr>)"
    using assms(3-5) by (intro step_loop_raises) simp_all
  with assms(1,2) show ?thesis
    by (simp add: flexsim_step_def try_except_def bind_def controller_time_def Let_def)
qed

lemma flexsim_step_healthy:
  assumes "get_controller E s = (Inr c, s1)" and "time_reply E (log s1 @ [Time]) = Inr start"
    and "\<forall>k<nat n. \<exists>r. eval_reply E (log s1 @ Time # replicate (Suc k) (Evaluate (str ''step()''))) = Inr r"
  shows "\<exists>text. flexsim_step E n s
           = (text, s1\<lparr>log := log s1 @ Time # replicate (nat n) (Evaluate (str ''step()'')) @ [Time]\<rparr>)"
proof -
  let ?s2 = "s1\<lparr>log := log s1 @ [Time]\<rparr>"
  have "step_loop E (nat n) ?s2
          = (Inr (), ?s2\<lparr>log := log ?s2 @ replicate (nat n) (Evaluate (str ''step()''))\<rparr>)"
    using assms(3) by (intro step_loop_healthy) simp
  with assms(1,2) show ?thesis
    by (simp add: flexsim_step_def try_except_def bind_def return_def controller_time_def Let_def
        split: sum.split)
qed

lemma handle_step:
  assumes "1 \<le> n" and "n \<le> 1000"
  shows "handle E (Step (Some n)) s = Some (Text (fst (flexsim_step E n s)), snd (flexsim_step E n s))"
  using assms by (simp add: StepInput_def respond_def split: prod.split)

text \<open>
  C3, as the code has it. A step count below 1 or above 1000 is rejected by validation and
  the session is left as it was; a request without a count is one for 1 step. For a count \<open>n\<close> in the range the tool acquires the
  controller, reads the clock, and then issues \<open>evaluate("step()")\<close> one call after the
  other until \<open>n\<close> of them are issued or one of them raises. So exactly \<open>n\<close> step commands
  are issued when the controller is acquired, the clock read returns and none of the \<open>n\<close>
  commands raises, and they are followed by one more clock read. When the controller
  cannot be acquired or the first clock read raises, no step command is issued; when
  command \<open>j + 1\<close> is the first to raise, with \<open>j < n\<close>, it is the last one issued. In these
  cases the response is the formatted error. The controller is acquired without a call
  when it exists, and by one launch otherwise.
\<close>

theorem step_commands_issued:
  "(n < 1 \<or> 1000 < n \<longrightarrow> (\<exists>err. handle E (Step (Some n)) s = Some (Rejected err, s)))
   \<and> handle E (Step None) s = handle E (Step (Some 1)) s
   \<and> (1 \<le> n \<and> n \<le> 1000 \<and> get_controller E s = (Inl e, s1) \<longrightarrow>
        handle E (Step (Some n)) s = Some (Text (format_error e), s1))
   \<and> (1 \<le> n \<and> n \<le> 1000 \<and> get_controller E s = (Inr c, s1)
        \<and> time_reply E (log s1 @ [Time]) = Inl e \<longrightarrow>
        handle E (Step (Some n)) s = Some (Text (format_error e), s1\<lparr>log := log s1 @ [Time]\<rparr>))
   \<and> (1 \<le> n \<and> n \<le> 1000 \<and> get_controller E s = (Inr c, s1)
        \<and> time_reply E (log s1 @ [Time]) = Inr start \<and> j < nat n
        \<and> (\<forall>k<j. \<exists>r. eval_reply E (log s1 @ Time # replicate (Suc k) (Evaluate (str ''step()''))) = Inr r)
        \<and> eval_reply E (log s1 @ Time # replicate (Suc j) (Evaluate (str ''step()''))) = Inl e \<longrightarrow>
        handle E (Step (Some n)) s
          = Some (Text (format_error e),
                  s1\<lparr>log := log s1 @ Time # replicate (Suc j) (Evaluate (str ''step()''))\<rparr>))
   \<and> (1 \<le> n \<and> n \<le> 1000 \<and> get_controller E s = (Inr c, s1)
        \<and> time_reply E (log s1 @ [Time]) = Inr start
        \<and> (\<forall>k<nat n. \<exists>r. eval_reply E (log s1 @ Time # replicate (Suc k) (Evaluate (str ''step()''))) = Inr r) \<longrightarrow>
        (\<exists>text. handle E (Step (Some n)) s
           = Some (Text text,
                   s1\<lparr>log := log s1 @ Time # replicate (nat n) (Evaluate (str ''step()''))
                                 @ [Time]\<rparr>)))
   \<and> (get_controller E s = (Inr c, s1) \<longrightarrow>
        (controller s \<noteq> None \<longrightarrow> s1 = s)
        \<and> (controller s = None \<longrightarrow> (\<exists>d. log s1 = log s @ [Launch d])))
   \<and> (controller s = Some c \<longrightarrow> get_controller E s = (Inr c, s))
   \<and> (controller s = None \<and> module_loaded E \<and> path_exists E (install_path E)
        \<and> cmd_reply E (log s @ [Launch (install_path E)]) = None \<longrightarrow>
        get_controller E s
          = (Inr (length (log s)),
             s\<lparr>log := log s @ [Launch (install_path E)], controller := Some (length (log s))\<rparr>))"
proof (intro conjI impI)
  assume "n < 1 \<or> 1000 < n"
  then show "\<exists>err. handle E (Step (Some n)) s = Some (Rejected err, s)"
    by (auto simp: StepInput_def)
next
  show "handle E (Step None) s = handle E (Step (Some 1)) s"
    by (simp add: StepInput_def)
next
  assume a: "1 \<le> n \<and> n \<le> 1000 \<and> get_controller E s = (Inl e, s1)"
  then have "flexsim_step E n s = (format_error e, s1)"
    by (intro flexsim_step_controller_error) simp
  with a show "handle E (Step (Some n)) s = Some (Text (format_error e), s1)"
    using handle_step [of n E s] by simp
next
  assume a: "1 \<le> n \<and> n \<le> 1000 \<and> get_controller E s = (Inr c, s1)
        \<and> time_reply E (log s1 @ [Time]) = Inl e"
  then have "flexsim_step E n s = (format_error e, s1\<lparr>log := log s1 @ [Time]\<rparr>)"
    by (intro flexsim_step_time_error) simp_all
  with a show "handle E (Step (Some n)) s
      = Some (Text (format_error e), s1\<lparr>log := log s1 @ [Time]\<rparr>)"
    using handle_step [of n E s] by simp
next
  assume a: "1 \<le> n \<and> n \<le> 1000 \<and> get_controller E s = (Inr c, s1)
        \<and> time_reply E (log s1 @ [Time]) = Inr start \<and> j < nat n
        \<and> (\<forall>k<j. \<exists>r. eval_reply E (log s1 @ Time # replicate (Suc k) (Evaluate (str ''step()''))) = Inr r)
        \<and> eval_reply E (log s1 @ Time # replicate (Suc j) (Evaluate (str ''step()''))) = Inl e"
  then have "flexsim_step E n s
           = (format_error e, s1\<lparr>log := log s1 @ Time # replicate (Suc j) (Evaluate (str ''step()''))\<rparr>)"
    by (intro flexsim_step_raises [where c = c and start = start]) blast+
  with a show "handle E (Step (Some n)) s
          = Some (Text (format_error e),
                  s1\<lparr>log := log s1 @ Time # replicate (Suc j) (Evaluate (str ''step()''))\<rparr>)"
    using handle_step [of n E s] by simp
next
  assume a: "1 \<le> n \<and> n \<le> 1000 \<and> get_controller E s = (Inr c, s1)
        \<and> time_reply E (log s1 @ [Time]) = Inr start
        \<and> (\<forall>k<nat n. \<exists>r. eval_reply E (log s1 @ Time # replicate (Suc k) (Evaluate (str ''step()''))) = Inr r)"
  then obtain resp where "flexsim_step E n s
           = (resp, s1\<lparr>log := log s1 @ Time # replicate (nat n) (Evaluate (str ''step()'')) @ [Time]\<rparr>)"
    using flexsim_step_healthy [of E s c s1 start n] by blast
  with a show "\<exists>text. handle E (Step (Some n)) s
           = Some (Text text,
                   s1\<lparr>log := log s1 @ Time # replicate (nat n) (Evaluate (str ''step()''))
                                 @ [Time]\<rparr>)"
    using handle_step [of n E s] by simp
next
  assume g: "get_controller E s = (Inr c, s1)" and "controller s \<noteq> None"
  with get_controller_fresh [OF g] show "s1 = s" by simp
next
  assume g: "get_controller E s = (Inr c, s1)" and "controller s = None"
  with get_controller_fresh [OF g] show "\<exists>d. log s1 = log s @ [Launch d]" by simp
next
  assume "controller s = Some c"
  then show "get_controller E s = (Inr c, s)" by (rule get_controller_present)
next
  assume "controller s = None \<and> module_loaded E \<and> path_exists E (install_path E)
        \<and> cmd_reply E (log s @ [Launch (install_path E)]) = None"
  then show "get_controller E s
          = (Inr (length (log s)),
             s\<lparr>log := log s @ [Launch (install_path E)], controller := Some (length (log s))\<rparr>)"
    by (simp add: get_controller_launch)
qed

lemma evaluate_raises_simps:
  "time_reply evaluate_raises h = Inr 0"
  "eval_reply evaluate_raises h = Inl license_expired"
  by (simp_all add: evaluate_raises_def double_def)

theorem step_commands_issued_witness:
  "(\<exists>text. handle (double (\<lambda>h. None) (\<lambda>h. Inr 0) []) (Step (Some 3)) running
      = Some (Text text,
              running\<lparr>log := log running @ [Time, Evaluate (str ''step()''), Evaluate (str ''step()''),
                                             Evaluate (str ''step()''), Time]\<rparr>))
   \<and> (\<exists>err. handle (double (\<lambda>h. None) (\<lambda>h. Inr 0) []) (Step (Some 0)) running
         = Some (Rejected err, running))
   \<and> (\<exists>err. handle (double (\<lambda>h. None) (\<lambda>h. Inr 0) []) (Step (Some 1001)) running
         = Some (Rejected err, running))
   \<and> handle evaluate_raises (Step (Some 3)) running
       = Some (Text (format_error license_expired),
               running\<lparr>log := log running @ [Time, Evaluate (str ''step()'')]\<rparr>)"
proof -
  let ?E = "double (\<lambda>h. None) (\<lambda>h. Inr 0) []"
  have g: "get_controller E running = (Inr 0, running)" for E
    by (simp add: get_controller_present running_simps)
  have h: "time_reply ?E (log running @ [Time]) = Inr 0"
    "\<forall>k<nat 3. \<exists>r. eval_reply ?E (log running @ Time # replicate (Suc k) (Evaluate (str ''step()''))) = Inr r"
    by (simp_all add: double_simps)
  have 1: "\<exists>text. handle ?E (Step (Some 3)) running
      = Some (Text text,
              running\<lparr>log := log running @ [Time, Evaluate (str ''step()''), Evaluate (str ''step()''),
                                             Evaluate (str ''step()''), Time]\<rparr>)"
    using step_commands_issued [of 3 ?E running _ running 0 0] g h
    by (simp add: numeral_3_eq_3)
  have 2: "\<exists>err. handle ?E (Step (Some 0)) running = Some (Rejected err, running)"
    using step_commands_issued [of 0 ?E running] by simp
  have 3: "\<exists>err. handle ?E (Step (Some 1001)) running = Some (Rejected err, running)"
    using step_commands_issued [of 1001 ?E running] by simp
  have 4: "handle evaluate_raises (Step (Some 3)) running
       = Some (Text (format_error license_expired),
               running\<lparr>log := log running @ [Time, Evaluate (str ''step()'')]\<rparr>)"
    using step_commands_issued [of 3 evaluate_raises running license_expired running 0 0 0] g
    by (simp add: evaluate_raises_simps)
  from 1 2 3 4 show ?thesis by blast
qed

text \<open>
  The claim as stated fails where it says that a count in the range always gives that many
  step commands. With a controller present and an engine whose \<open>evaluate\<close> raises, a
  request for 3 steps issues one step command and answers with the error; with the
  FlexSimPy module missing and no controller, it issues none.
\<close>

theorem step_stops_at_error_counterexample:
  "handle evaluate_raises (Step (Some 3)) running
     = Some (Text (str ''License error: '' @ str ''License expired''),
             \<lparr>controller = Some 0,
               log = [Launch (str ''C:/FlexSim/program''), Time, Evaluate (str ''step()'')]\<rparr>)
   \<and> log running = [Launch (str ''C:/FlexSim/program'')]
   \<and> handle (module_missing []) (Step (Some 3)) initial
       = Some (Text (str ''Error: '' @ str ''FlexSimPy module not available''), initial)"
proof -
  have f: "format_error license_expired = str ''License error: '' @ str ''License expired''"
    by (simp add: license_expired_def format_error_def license_expired_category)
  have a: "flexsim_step evaluate_raises 3 running
     = (str ''License error: '' @ str ''License expired'',
        \<lparr>controller = Some 0,
          log = [Launch (str ''C:/FlexSim/program''), Time, Evaluate (str ''step()'')]\<rparr>)"
    by (simp add: flexsim_step_def try_except_def bind_def controller_time_def
        controller_evaluate_def Let_def get_controller_present running_simps
        evaluate_raises_simps numeral_3_eq_3 f)
  have l: "launch_flexsim_sync (module_missing []) \<lparr>controller = None, log = []\<rparr>
       = (Inl (Exn RuntimeError (str ''FlexSimPy module not available'')), \<lparr>controller = None, log = []\<rparr>)"
    by (simp add: launch_flexsim_sync_def module_missing_simps)
  have b: "flexsim_step (module_missing []) 3 initial
       = (str ''Error: '' @ str ''FlexSimPy module not available'', initial)"
    by (simp add: flexsim_step_def try_except_def bind_def get_controller_def l initial_def
        format_error_module_not_available)
  show ?thesis using a b by (simp add: StepInput_def respond_def running_simps)
qed

section \<open>Validation of the model path\<close>

lemma OpenModelInput_Inl_iff:
  "(\<exists>err. OpenModelInput E v = Inl err) \<longleftrightarrow>
     v = [] \<or> lower (path_suffix E v) \<notin> {str ''.fsm'', str ''.fsx''} \<or> \<not> path_exists E v"
  by (auto simp: OpenModelInput_def validate_path_def)

lemma OpenModelInput_Inr:
  "v \<noteq> [] \<Longrightarrow> lower (path_suffix E v) \<in> {str ''.fsm'', str ''.fsx''} \<Longrightarrow> path_exists E v
     \<Longrightarrow> OpenModelInput E v = Inr (path_resolve E v)"
  by (auto simp: OpenModelInput_def validate_path_def)

text \<open>
  C4, as the code has it. An open-model request is rejected with a validation error, and
  the session is left as it was (no controller is created or touched, nothing is issued
  to the engine), exactly when the path is empty, or its suffix, compared without regard
  to case, is neither \<open>.fsm\<close> nor \<open>.fsx\<close>, or the file does not exist. Otherwise
  validation succeeds and the tool runs on the resolved path.
\<close>

theorem open_model_validation:
  "((\<exists>err. OpenModelInput E v = Inl err) \<longleftrightarrow>
      v = [] \<or> lower (path_suffix E v) \<notin> {str ''.fsm'', str ''.fsx''} \<or> \<not> path_exists E v)
   \<and> (OpenModelInput E v = Inl err \<longrightarrow> handle E (OpenModel v) s = Some (Rejected err, s))
   \<and> (v \<noteq> [] \<and> lower (path_suffix E v) \<in> {str ''.fsm'', str ''.fsx''} \<and> path_exists E v \<longrightarrow>
        OpenModelInput E v = Inr (path_resolve E v)
        \<and> handle E (OpenModel v) s = respond (flexsim_open_model E (path_resolve E v) s))"
  using OpenModelInput_Inl_iff [of E v] OpenModelInput_Inr [of v E]
  by auto

lemma line_model_suffix:
  "pure_suffix (str ''C:/Models/Line.FSM'') = str ''.FSM''"
  "pure_suffix (str ''C:/Models/Line.txt'') = str ''.txt''"
  by code_simp+

lemma suffix_literals:
  "lower (str ''.FSM'') = str ''.fsm''" "lower (str ''.txt'') = str ''.txt''"
  "str ''.FSM'' \<noteq> str ''.fsm''" "str ''.FSM'' \<noteq> str ''.fsx''"
  "str ''.txt'' \<noteq> str ''.fsm''" "str ''.txt'' \<noteq> str ''.fsx''"
  "str ''C:/Models/Line.FSM'' \<noteq> []" "str ''C:/Models/Line.txt'' \<noteq> []"
  by (simp_all add: lower_def lower_cp_def str_def)

theorem open_model_validation_witness:
  "OpenModelInput (double (\<lambda>h. None) (\<lambda>h. Inr 0) [str ''C:/Models/Line.FSM''])
       (str ''C:/Models/Line.FSM'') = Inr (str ''C:/Models/Line.FSM'')
   \<and> (\<exists>err. handle (double (\<lambda>h. None) (\<lambda>h. Inr 0) [str ''C:/Models/Line.txt''])
               (OpenModel (str ''C:/Models/Line.txt'')) initial = Some (Rejected err, initial))
   \<and> (\<exists>err. handle (double (\<lambda>h. None) (\<lambda>h. Inr 0) [])
               (OpenModel (str ''C:/Models/Line.FSM'')) initial = Some (Rejected err, initial))"
proof -
  let ?E = "double (\<lambda>h. None) (\<lambda>h. Inr 0) [str ''C:/Models/Line.FSM'']"
  let ?F = "double (\<lambda>h. None) (\<lambda>h. Inr 0) [str ''C:/Models/Line.txt'']"
  let ?G = "double (\<lambda>h. None) (\<lambda>h. Inr 0) []"
  have 1: "OpenModelInput ?E (str ''C:/Models/Line.FSM'') = Inr (str ''C:/Models/Line.FSM'')"
    using open_model_validation [of ?E "str ''C:/Models/Line.FSM''" _ initial]
    by (simp add: double_simps line_model_suffix suffix_literals)
  obtain e2 where "OpenModelInput ?F (str ''C:/Models/Line.txt'') = Inl e2"
    using open_model_validation [of ?F "str ''C:/Models/Line.txt''" _ initial]
    by (auto simp: double_simps line_model_suffix suffix_literals)
  then have 2: "\<exists>err. handle ?F (OpenModel (str ''C:/Models/Line.txt'')) initial = Some (Rejected err, initial)"
    using open_model_validation [of ?F "str ''C:/Models/Line.txt''" e2 initial] by blast
  obtain e3 where "OpenModelInput ?G (str ''C:/Models/Line.FSM'') = Inl e3"
    using open_model_validation [of ?G "str ''C:/Models/Line.FSM''" _ initial]
    by (auto simp: double_simps)
  then have 3: "\<exists>err. handle ?G (OpenModel (str ''C:/Models/Line.FSM'')) initial = Some (Rejected err, initial)"
    using open_model_validation [of ?G "str ''C:/Models/Line.FSM''" e3 initial] by blast
  from 1 2 3 show ?thesis by blast
qed

text \<open>
  The claim as stated fails for a suffix in capitals: the existing file \<open>Line.FSM\<close> has
  the suffix \<open>.FSM\<close>, which is not one of \<open>.fsm\<close> and \<open>.fsx\<close>, and validation accepts it.
\<close>

theorem open_model_capital_suffix_counterexample:
  "path_suffix (double (\<lambda>h. None) (\<lambda>h. Inr 0) [str ''C:/Models/Line.FSM''])
       (str ''C:/Models/Line.FSM'') = str ''.FSM''
   \<and> str ''.FSM'' \<notin> {str ''.fsm'', str ''.fsx''}
   \<and> OpenModelInput (double (\<lambda>h. None) (\<lambda>h. Inr 0) [str ''C:/Models/Line.FSM''])
       (str ''C:/Models/Line.FSM'') = Inr (str ''C:/Models/Line.FSM'')"
  by (simp add: OpenModelInput_def validate_path_def double_simps line_model_suffix suffix_literals)

section \<open>Session initialization under concurrent callers\<close>

lemma launch_flexsim_sync_cases:
  assumes "launch_flexsim_sync E s = (r, s')"
  shows "controller s' = controller s
       \<and> ((s' = s \<and> (\<exists>e. r = Inl e))
          \<or> (\<exists>d. log s' = log s @ [Launch d]
                \<and> (case r of Inl e \<Rightarrow> cmd_reply E (log s') = Some e
                    | Inr c \<Rightarrow> cmd_reply E (log s') = None)))"
  using assms
  by (auto simp: launch_flexsim_sync_def FlexSimPy_launch_def Let_def
      split: if_splits option.splits)

lemma invariant_fresh: "invariant E (fresh n)"
  by (auto simp: invariant_def fresh_def launching_def failed_def)

lemma launching_update:
  "i < length (tasks p) \<Longrightarrow>
     launching (p\<lparr>tasks := (tasks p)[i := t]\<rparr>) j
       = (if j = i then (\<exists>r. t = Launching r) else launching p j)"
  by (auto simp: launching_def)

lemma launching_shared [simp]: "launching (p\<lparr>shared := s\<rparr>) j = launching p j"
  by (simp add: launching_def)

lemma launching_locked [simp]: "launching (p\<lparr>locked := b\<rparr>) j = launching p j"
  by (simp add: launching_def)

lemma failed_shared [simp]: "failed (p\<lparr>shared := s\<rparr>) = failed p"
  by (simp add: failed_def)

lemma failed_locked [simp]: "failed (p\<lparr>locked := b\<rparr>) = failed p"
  by (simp add: failed_def)

lemma failed_update_keeps:
  assumes "i < length (tasks p)" and "\<forall>e. tasks p ! i \<noteq> Returned (Inl e)"
  shows "failed p \<Longrightarrow> failed (p\<lparr>tasks := (tasks p)[i := t]\<rparr>)"
  using assms unfolding failed_def
  by (metis length_list_update nth_list_update_neq process.select_convs(3) process.surjective
      process.update_convs(3))

lemma failed_update_new:
  "i < length (tasks p) \<Longrightarrow> failed (p\<lparr>tasks := (tasks p)[i := Returned (Inl e)]\<rparr>)"
  unfolding failed_def by (rule exI [of _ i]) auto


lemma failed_update_other:
  assumes "i < length (tasks p)" and "\<forall>e. tasks p ! i \<noteq> Returned (Inl e)"
    and "\<forall>e. t \<noteq> Returned (Inl e)"
  shows "failed (p\<lparr>tasks := (tasks p)[i := t]\<rparr>) = failed p"
proof
  assume "failed (p\<lparr>tasks := (tasks p)[i := t]\<rparr>)"
  then obtain j e where j: "j < length (tasks p)" "(tasks p)[i := t] ! j = Returned (Inl e)"
    by (auto simp: failed_def)
  with assms(1,3) have "j \<noteq> i" by auto
  with j have "tasks p ! j = Returned (Inl e)" by simp
  with j(1) show "failed p" by (auto simp: failed_def)
next
  assume "failed p"
  then obtain j e where j: "j < length (tasks p)" "tasks p ! j = Returned (Inl e)"
    by (auto simp: failed_def)
  with assms(2) have "j \<noteq> i" by auto
  with j have "(tasks p)[i := t] ! j = Returned (Inl e)" by simp
  with j(1) show "failed (p\<lparr>tasks := (tasks p)[i := t]\<rparr>)" by (auto simp: failed_def)
qed

lemma launching_update_other:
  assumes "i < length (tasks p)" and "\<forall>r. tasks p ! i \<noteq> Launching r" and "\<forall>r. t \<noteq> Launching r"
  shows "launching (p\<lparr>tasks := (tasks p)[i := t]\<rparr>) j = launching p j"
  using assms by (auto simp: launching_def nth_list_update)

lemma invariant_wait:
  assumes "invariant E p" and "i < length (tasks p)" and "tasks p ! i = Idle"
  shows "invariant E (p\<lparr>tasks := (tasks p)[i := Waiting]\<rparr>)"
proof -
  have l: "launching (p\<lparr>tasks := (tasks p)[i := Waiting]\<rparr>) j = launching p j" for j
    using assms(2,3) by (auto simp: launching_def nth_list_update)
  have f: "failed (p\<lparr>tasks := (tasks p)[i := Waiting]\<rparr>) = failed p"
    using assms(2,3) by (intro failed_update_other) simp_all
  have r: "(j < length (tasks p) \<and> (tasks p)[i := Waiting] ! j = Returned x)
             = (j < length (tasks p) \<and> tasks p ! j = Returned x)" for j x
    using assms(2,3) by (auto simp: nth_list_update)
  have g: "(j < length (tasks p) \<and> (tasks p)[i := Waiting] ! j = Launching x)
             = (j < length (tasks p) \<and> tasks p ! j = Launching x)" for j x
    using assms(2,3) by (auto simp: nth_list_update)
  show ?thesis
    using assms(1) unfolding invariant_def l f by (simp add: r g)
qed


lemma invariant_return_present:
  assumes "invariant E p" and "i < length (tasks p)"
    and "tasks p ! i = Idle \<or> tasks p ! i = Waiting" and "controller (shared p) = Some c"
  shows "invariant E (p\<lparr>tasks := (tasks p)[i := Returned (Inr c)]\<rparr>)"
proof -
  let ?p = "p\<lparr>tasks := (tasks p)[i := Returned (Inr c)]\<rparr>"
  have l: "launching ?p j = launching p j" for j
    using assms(2,3) by (auto simp: launching_def nth_list_update)
  have f: "failed ?p = failed p"
    using assms(2,3) by (intro failed_update_other) auto
  have g: "(j < length (tasks p) \<and> (tasks p)[i := Returned (Inr c)] ! j = Launching x)
             = (j < length (tasks p) \<and> tasks p ! j = Launching x)" for j x
    using assms(2,3) by (auto simp: nth_list_update)
  have r: "controller (shared p) = Some d"
    if "j < length (tasks p)" "(tasks p)[i := Returned (Inr c)] ! j = Returned (Inr d)" for j d
  proof (cases "j = i")
    case True
    with that assms(2,4) show ?thesis by simp
  next
    case False
    with that assms(1) show ?thesis by (simp add: invariant_def)
  qed
  show ?thesis
    using assms(1) r unfolding invariant_def l f by (simp add: g) blast
qed


lemma invariantI:
  assumes "locked p \<longleftrightarrow> (\<exists>i. launching p i)"
    and "\<And>i j. launching p i \<Longrightarrow> launching p j \<Longrightarrow> i = j"
    and "\<And>i. launching p i \<Longrightarrow> controller (shared p) = None"
    and "\<And>i c. i < length (tasks p) \<Longrightarrow> tasks p ! i = Returned (Inr c) \<Longrightarrow>
           controller (shared p) = Some c"
    and "\<And>c. c \<in> set (log (shared p)) \<Longrightarrow> \<exists>d. c = Launch d"
    and "\<And>k. Suc k < length (log (shared p)) \<Longrightarrow>
           cmd_reply E (take (Suc k) (log (shared p))) \<noteq> None"
    and "log (shared p) \<noteq> [] \<Longrightarrow> cmd_reply E (log (shared p)) = None \<Longrightarrow>
           controller (shared p) \<noteq> None
           \<or> (\<exists>i c. i < length (tasks p) \<and> tasks p ! i = Launching (Inr c))"
    and "controller (shared p) \<noteq> None
           \<or> (\<exists>i c. i < length (tasks p) \<and> tasks p ! i = Launching (Inr c)) \<Longrightarrow>
           log (shared p) \<noteq> []"
    and "log (shared p) \<noteq> [] \<Longrightarrow> controller (shared p) = None \<Longrightarrow> \<not> locked p \<Longrightarrow> failed p"
    and "2 \<le> length (log (shared p)) \<Longrightarrow> failed p"
  shows "invariant E p"
  unfolding invariant_def using assms by blast

lemma invariantD:
  assumes "invariant E p"
  shows "locked p \<longleftrightarrow> (\<exists>i. launching p i)"
    and "launching p i \<Longrightarrow> launching p j \<Longrightarrow> i = j"
    and "launching p i \<Longrightarrow> controller (shared p) = None"
    and "i < length (tasks p) \<Longrightarrow> tasks p ! i = Returned (Inr c) \<Longrightarrow>
           controller (shared p) = Some c"
    and "x \<in> set (log (shared p)) \<Longrightarrow> \<exists>d. x = Launch d"
    and "Suc k < length (log (shared p)) \<Longrightarrow>
           cmd_reply E (take (Suc k) (log (shared p))) \<noteq> None"
    and "log (shared p) \<noteq> [] \<Longrightarrow> cmd_reply E (log (shared p)) = None \<Longrightarrow>
           controller (shared p) \<noteq> None
           \<or> (\<exists>i c. i < length (tasks p) \<and> tasks p ! i = Launching (Inr c))"
    and "controller (shared p) \<noteq> None
           \<or> (\<exists>i c. i < length (tasks p) \<and> tasks p ! i = Launching (Inr c)) \<Longrightarrow>
           log (shared p) \<noteq> []"
    and "log (shared p) \<noteq> [] \<Longrightarrow> controller (shared p) = None \<Longrightarrow> \<not> locked p \<Longrightarrow> failed p"
    and "2 \<le> length (log (shared p)) \<Longrightarrow> failed p"
  using assms unfolding invariant_def by blast+

text \<open>A task that finds no controller starts the launch and keeps the lock.\<close>

lemma invariant_launch:
  assumes inv: "invariant E p" and i: "i < length (tasks p)"
    and idle: "tasks p ! i = Idle \<or> tasks p ! i = Waiting"
    and free: "\<not> locked p" and none: "controller (shared p) = None"
    and l: "launch_flexsim_sync E (shared p) = (r, s')"
  shows "invariant E (p\<lparr>shared := s', locked := True, tasks := (tasks p)[i := Launching r]\<rparr>)"
proof -
  let ?p = "p\<lparr>shared := s', locked := True, tasks := (tasks p)[i := Launching r]\<rparr>"
  note D = invariantD [OF inv]
  have nol: "\<not> launching p j" for j using D(1) free by blast
  have lp: "launching ?p j \<longleftrightarrow> j = i" for j
    using i nol [of j] by (auto simp: launching_def nth_list_update)
  from launch_flexsim_sync_cases [OF l]
  have c': "controller s' = None"
    and cases: "(s' = shared p \<and> (\<exists>e. r = Inl e))
       \<or> (\<exists>d. log s' = log (shared p) @ [Launch d]
             \<and> (case r of Inl e \<Rightarrow> cmd_reply E (log s') = Some e
                 | Inr c \<Rightarrow> cmd_reply E (log s') = None))"
    using none by auto
  have old_tasks: "tasks p ! j = t" if "j < length (tasks p)" "(tasks p)[i := Launching r] ! j = t"
    "\<forall>x. t \<noteq> Launching x" for j t
    using that i by (cases "j = i") auto
  have keep: "failed ?p" if "failed p"
  proof -
    have "failed (p\<lparr>tasks := (tasks p)[i := Launching r]\<rparr>)"
      using failed_update_keeps [of i p "Launching r"] i idle that by auto
    then show ?thesis by (simp add: failed_def)
  qed
  have last_raised: "cmd_reply E (log (shared p)) \<noteq> None" if "log (shared p) \<noteq> []"
  proof
    assume "cmd_reply E (log (shared p)) = None"
    from D(7) [OF that this] none obtain j c where
      "j < length (tasks p)" "tasks p ! j = Launching (Inr c)" by blast
    then have "launching p j" by (simp add: launching_def)
    with nol show False by blast
  qed
  show ?thesis
  proof (rule invariantI)
    show "locked ?p \<longleftrightarrow> (\<exists>j. launching ?p j)" using lp by auto
    show "\<And>a b. launching ?p a \<Longrightarrow> launching ?p b \<Longrightarrow> a = b" using lp by simp
    show "\<And>a. launching ?p a \<Longrightarrow> controller (shared ?p) = None" using c' by simp
    show "\<And>a c. a < length (tasks ?p) \<Longrightarrow> tasks ?p ! a = Returned (Inr c) \<Longrightarrow>
           controller (shared ?p) = Some c"
    proof -
      fix a c assume "a < length (tasks ?p)" "tasks ?p ! a = Returned (Inr c)"
      then have "a < length (tasks p)" "tasks p ! a = Returned (Inr c)"
        using old_tasks [of a "Returned (Inr c)"] by auto
      from D(4) [OF this] none show "controller (shared ?p) = Some c" by simp
    qed
    show "\<And>x. x \<in> set (log (shared ?p)) \<Longrightarrow> \<exists>d. x = Launch d"
      using cases D(5) by auto
    show "\<And>k. Suc k < length (log (shared ?p)) \<Longrightarrow>
           cmd_reply E (take (Suc k) (log (shared ?p))) \<noteq> None"
    proof -
      fix k assume k: "Suc k < length (log (shared ?p))"
      from cases show "cmd_reply E (take (Suc k) (log (shared ?p))) \<noteq> None"
      proof
        assume "s' = shared p \<and> (\<exists>e. r = Inl e)"
        with k D(6) [of k] show ?thesis by simp
      next
        assume "\<exists>d. log s' = log (shared p) @ [Launch d]
             \<and> (case r of Inl e \<Rightarrow> cmd_reply E (log s') = Some e
                 | Inr c \<Rightarrow> cmd_reply E (log s') = None)"
        then obtain d where d: "log s' = log (shared p) @ [Launch d]" by blast
        with k have le: "Suc k \<le> length (log (shared p))" by simp
        then have t: "take (Suc k) (log s') = take (Suc k) (log (shared p))" using d by simp
        show ?thesis
        proof (cases "Suc k < length (log (shared p))")
          case True
          with D(6) [of k] t show ?thesis by simp
        next
          case False
          with le have "take (Suc k) (log (shared p)) = log (shared p)" "log (shared p) \<noteq> []"
            by auto
          with last_raised t show ?thesis by simp
        qed
      qed
    qed
    show "log (shared ?p) \<noteq> [] \<Longrightarrow> cmd_reply E (log (shared ?p)) = None \<Longrightarrow>
           controller (shared ?p) \<noteq> None
           \<or> (\<exists>a c. a < length (tasks ?p) \<and> tasks ?p ! a = Launching (Inr c))"
    proof -
      assume ne: "log (shared ?p) \<noteq> []" and ok: "cmd_reply E (log (shared ?p)) = None"
      from cases have "\<exists>c. r = Inr c"
      proof
        assume "s' = shared p \<and> (\<exists>e. r = Inl e)"
        with ne ok last_raised show ?thesis by simp
      next
        assume "\<exists>d. log s' = log (shared p) @ [Launch d]
             \<and> (case r of Inl e \<Rightarrow> cmd_reply E (log s') = Some e
                 | Inr c \<Rightarrow> cmd_reply E (log s') = None)"
        with ok show ?thesis by (cases r) auto
      qed
      then obtain c where "r = Inr c" by blast
      with i have "i < length (tasks ?p) \<and> tasks ?p ! i = Launching (Inr c)" by simp
      then show ?thesis by blast
    qed
    show "controller (shared ?p) \<noteq> None
           \<or> (\<exists>a c. a < length (tasks ?p) \<and> tasks ?p ! a = Launching (Inr c)) \<Longrightarrow>
           log (shared ?p) \<noteq> []"
    proof -
      assume "controller (shared ?p) \<noteq> None
           \<or> (\<exists>a c. a < length (tasks ?p) \<and> tasks ?p ! a = Launching (Inr c))"
      with c' obtain a c where a: "a < length (tasks p)" "(tasks p)[i := Launching r] ! a = Launching (Inr c)"
        by auto
      have "a = i"
      proof (rule ccontr)
        assume "a \<noteq> i"
        with a have "launching p a" by (simp add: launching_def)
        with nol show False by blast
      qed
      with a i have "r = Inr c" by simp
      with cases show ?thesis by auto
    qed
    show "log (shared ?p) \<noteq> [] \<Longrightarrow> controller (shared ?p) = None \<Longrightarrow> \<not> locked ?p \<Longrightarrow> failed ?p"
      by simp
    show "2 \<le> length (log (shared ?p)) \<Longrightarrow> failed ?p"
    proof -
      assume two: "2 \<le> length (log (shared ?p))"
      from cases have "failed p"
      proof
        assume "s' = shared p \<and> (\<exists>e. r = Inl e)"
        with two D(10) show ?thesis by simp
      next
        assume "\<exists>d. log s' = log (shared p) @ [Launch d]
             \<and> (case r of Inl e \<Rightarrow> cmd_reply E (log s') = Some e
                 | Inr c \<Rightarrow> cmd_reply E (log s') = None)"
        with two have "log (shared p) \<noteq> []" by auto
        from D(9) [OF this none free] show ?thesis .
      qed
      then show ?thesis by (rule keep)
    qed
  qed
qed


text \<open>The launch completes with a handle: the task stores it and releases the lock.\<close>

lemma invariant_complete_handle:
  assumes inv: "invariant E p" and i: "i < length (tasks p)"
    and t: "tasks p ! i = Launching (Inr c)"
  shows "invariant E (p\<lparr>shared := (shared p)\<lparr>controller := Some c\<rparr>, locked := False,
                        tasks := (tasks p)[i := Returned (Inr c)]\<rparr>)"
proof -
  let ?p = "p\<lparr>shared := (shared p)\<lparr>controller := Some c\<rparr>, locked := False,
              tasks := (tasks p)[i := Returned (Inr c)]\<rparr>"
  note D = invariantD [OF inv]
  have li: "launching p i" using i t by (simp add: launching_def)
  have only: "j = i" if "launching p j" for j using D(2) [OF that li] .
  have none: "controller (shared p) = None" using D(3) [OF li] .
  have nol: "\<not> launching ?p j" for j
  proof
    assume a: "launching ?p j"
    then have "j \<noteq> i" using i by (auto simp: launching_def)
    with a have "launching p j" by (auto simp: launching_def)
    with only \<open>j \<noteq> i\<close> show False by blast
  qed
  have ne: "log (shared p) \<noteq> []" using D(8) i t by blast
  have keep: "failed ?p" if "failed p"
  proof -
    have "failed (p\<lparr>tasks := (tasks p)[i := Returned (Inr c)]\<rparr>)"
      using failed_update_keeps [of i p "Returned (Inr c)"] i t that by auto
    then show ?thesis by (simp add: failed_def)
  qed
  show ?thesis
  proof (rule invariantI)
    show "locked ?p \<longleftrightarrow> (\<exists>j. launching ?p j)" using nol by simp
    show "\<And>a b. launching ?p a \<Longrightarrow> launching ?p b \<Longrightarrow> a = b" using nol by blast
    show "\<And>a. launching ?p a \<Longrightarrow> controller (shared ?p) = None" using nol by blast
    show "\<And>a d. a < length (tasks ?p) \<Longrightarrow> tasks ?p ! a = Returned (Inr d) \<Longrightarrow>
           controller (shared ?p) = Some d"
    proof -
      fix a d assume a: "a < length (tasks ?p)" "tasks ?p ! a = Returned (Inr d)"
      show "controller (shared ?p) = Some d"
      proof (cases "a = i")
        case True
        with a i show ?thesis by simp
      next
        case False
        with a have "a < length (tasks p)" "tasks p ! a = Returned (Inr d)" by auto
        from D(4) [OF this] none show ?thesis by simp
      qed
    qed
    show "\<And>x. x \<in> set (log (shared ?p)) \<Longrightarrow> \<exists>d. x = Launch d" using D(5) by simp
    show "\<And>k. Suc k < length (log (shared ?p)) \<Longrightarrow>
           cmd_reply E (take (Suc k) (log (shared ?p))) \<noteq> None"
      using D(6) by simp
    show "log (shared ?p) \<noteq> [] \<Longrightarrow> cmd_reply E (log (shared ?p)) = None \<Longrightarrow>
           controller (shared ?p) \<noteq> None
           \<or> (\<exists>a c. a < length (tasks ?p) \<and> tasks ?p ! a = Launching (Inr c))"
      by simp
    show "controller (shared ?p) \<noteq> None
           \<or> (\<exists>a c. a < length (tasks ?p) \<and> tasks ?p ! a = Launching (Inr c)) \<Longrightarrow>
           log (shared ?p) \<noteq> []"
      using ne by simp
    show "log (shared ?p) \<noteq> [] \<Longrightarrow> controller (shared ?p) = None \<Longrightarrow> \<not> locked ?p \<Longrightarrow> failed ?p"
      by simp
    show "2 \<le> length (log (shared ?p)) \<Longrightarrow> failed ?p"
      using D(10) keep by simp
  qed
qed

text \<open>The launch completes with an exception: the task releases the lock and raises.\<close>

lemma invariant_complete_error:
  assumes inv: "invariant E p" and i: "i < length (tasks p)"
    and t: "tasks p ! i = Launching (Inl e)"
  shows "invariant E (p\<lparr>locked := False, tasks := (tasks p)[i := Returned (Inl e)]\<rparr>)"
proof -
  let ?p = "p\<lparr>locked := False, tasks := (tasks p)[i := Returned (Inl e)]\<rparr>"
  note D = invariantD [OF inv]
  have li: "launching p i" using i t by (simp add: launching_def)
  have only: "j = i" if "launching p j" for j using D(2) [OF that li] .
  have none: "controller (shared p) = None" using D(3) [OF li] .
  have nol: "\<not> launching ?p j" for j
  proof
    assume a: "launching ?p j"
    then have "j \<noteq> i" using i by (auto simp: launching_def)
    with a have "launching p j" by (auto simp: launching_def)
    with only \<open>j \<noteq> i\<close> show False by blast
  qed
  have no_handle: "\<not> (\<exists>a c. a < length (tasks p) \<and> tasks p ! a = Launching (Inr c))"
  proof
    assume "\<exists>a c. a < length (tasks p) \<and> tasks p ! a = Launching (Inr c)"
    then obtain a c where a: "a < length (tasks p)" "tasks p ! a = Launching (Inr c)" by blast
    then have "launching p a" by (simp add: launching_def)
    from only [OF this] a t show False by simp
  qed
  have f: "failed ?p"
  proof -
    have "failed (p\<lparr>tasks := (tasks p)[i := Returned (Inl e)]\<rparr>)"
      using i by (rule failed_update_new)
    then show ?thesis by (simp add: failed_def)
  qed
  show ?thesis
  proof (rule invariantI)
    show "locked ?p \<longleftrightarrow> (\<exists>j. launching ?p j)" using nol by simp
    show "\<And>a b. launching ?p a \<Longrightarrow> launching ?p b \<Longrightarrow> a = b" using nol by blast
    show "\<And>a. launching ?p a \<Longrightarrow> controller (shared ?p) = None" using nol by blast
    show "\<And>a d. a < length (tasks ?p) \<Longrightarrow> tasks ?p ! a = Returned (Inr d) \<Longrightarrow>
           controller (shared ?p) = Some d"
    proof -
      fix a d assume a: "a < length (tasks ?p)" "tasks ?p ! a = Returned (Inr d)"
      then have "a \<noteq> i" using i by auto
      with a have "a < length (tasks p)" "tasks p ! a = Returned (Inr d)" by auto
      from D(4) [OF this] show "controller (shared ?p) = Some d" by simp
    qed
    show "\<And>x. x \<in> set (log (shared ?p)) \<Longrightarrow> \<exists>d. x = Launch d" using D(5) by simp
    show "\<And>k. Suc k < length (log (shared ?p)) \<Longrightarrow>
           cmd_reply E (take (Suc k) (log (shared ?p))) \<noteq> None"
      using D(6) by simp
    show "log (shared ?p) \<noteq> [] \<Longrightarrow> cmd_reply E (log (shared ?p)) = None \<Longrightarrow>
           controller (shared ?p) \<noteq> None
           \<or> (\<exists>a c. a < length (tasks ?p) \<and> tasks ?p ! a = Launching (Inr c))"
      using D(7) none no_handle by simp
    show "controller (shared ?p) \<noteq> None
           \<or> (\<exists>a c. a < length (tasks ?p) \<and> tasks ?p ! a = Launching (Inr c)) \<Longrightarrow>
           log (shared ?p) \<noteq> []"
    proof -
      assume "controller (shared ?p) \<noteq> None
           \<or> (\<exists>a c. a < length (tasks ?p) \<and> tasks ?p ! a = Launching (Inr c))"
      with none obtain a c where "a < length (tasks p)"
        "(tasks p)[i := Returned (Inl e)] ! a = Launching (Inr c)" by auto
      then have "launching ?p a" by (simp add: launching_def)
      with nol show ?thesis by blast
    qed
    show "log (shared ?p) \<noteq> [] \<Longrightarrow> controller (shared ?p) = None \<Longrightarrow> \<not> locked ?p \<Longrightarrow> failed ?p"
      using f by simp
    show "2 \<le> length (log (shared ?p)) \<Longrightarrow> failed ?p" using f by simp
  qed
qed

lemma invariant_enter:
  assumes "invariant E p" and "i < length (tasks p)"
    and "tasks p ! i = Idle \<or> tasks p ! i = Waiting" and "\<not> locked p"
  shows "invariant E (enter E i p)"
proof (cases "controller (shared p)")
  case None
  obtain r s' where l: "launch_flexsim_sync E (shared p) = (r, s')"
    by (cases "launch_flexsim_sync E (shared p)")
  from invariant_launch [OF assms None l] show ?thesis
    using None l by (simp add: enter_def)
next
  case (Some c)
  from invariant_return_present [OF assms(1,2,3) Some] show ?thesis
    using Some by (simp add: enter_def)
qed

lemma invariant_step:
  assumes "invariant E p"
  shows "invariant E (step E p ev)"
proof (cases ev)
  case (Call i)
  then show ?thesis
    using assms invariant_wait [of E p i] invariant_enter [of E p i] by auto
next
  case (Wake i)
  then show ?thesis using assms invariant_enter [of E p i] by auto
next
  case (Complete i)
  show ?thesis
  proof (cases "i < length (tasks p)")
    case False
    with Complete assms show ?thesis by simp
  next
    case True
    show ?thesis
    proof (cases "tasks p ! i")
      case (Launching r)
      then show ?thesis
        using Complete True assms invariant_complete_handle [of E p i]
          invariant_complete_error [of E p i]
        by (cases r) auto
    qed (use Complete True assms in auto)
  qed
qed

lemma invariant_exec:
  "invariant E p \<Longrightarrow> invariant E (exec E evs p)"
  unfolding exec_def by (induction evs arbitrary: p) (auto intro: invariant_step)

lemma length_tasks_enter [simp]: "length (tasks (enter E i p)) = length (tasks p)"
  by (simp add: enter_def split: option.split prod.split)

lemma length_tasks_step [simp]: "length (tasks (step E p ev)) = length (tasks p)"
  by (cases ev) (auto split: task.split sum.split)

lemma length_tasks_exec [simp]: "length (tasks (exec E evs p)) = length (tasks p)"
  unfolding exec_def by (induction evs arbitrary: p) auto

subsection \<open>Simultaneous first calls\<close>

lemma exec_Nil [simp]: "exec E [] p = p"
  by (simp add: exec_def)

lemma exec_Cons [simp]: "exec E (ev # evs) p = exec E evs (step E p ev)"
  by (simp add: exec_def)

lemma exec_append: "exec E (evs @ evs') p = exec E evs' (exec E evs p)"
  by (simp add: exec_def)

text \<open>
  A task that is given the free lock and runs to its return has run \<open>get_controller\<close> on
  the shared session.
\<close>

lemma enter_complete:
  assumes "i < length ts"
  shows "step E (enter E i \<lparr>shared = s, locked = False, tasks = ts\<rparr>) (Complete i)
           = \<lparr>shared = snd (get_controller E s), locked = False,
              tasks = ts[i := Returned (fst (get_controller E s))]\<rparr>"
proof (cases "controller s")
  case (Some c)
  with assms show ?thesis by (simp add: enter_def get_controller_def)
next
  case None
  obtain r s' where l: "launch_flexsim_sync E s = (r, s')" by (cases "launch_flexsim_sync E s")
  with None assms show ?thesis
    by (cases r) (simp_all add: enter_def get_controller_def)
qed

lemma wake_complete:
  assumes "i < length ts" and "ts ! i = Waiting"
  shows "exec E [Wake i, Complete i] \<lparr>shared = s, locked = False, tasks = ts\<rparr>
           = \<lparr>shared = snd (get_controller E s), locked = False,
              tasks = ts[i := Returned (fst (get_controller E s))]\<rparr>"
proof -
  have "step E \<lparr>shared = s, locked = False, tasks = ts\<rparr> (Wake i)
      = enter E i \<lparr>shared = s, locked = False, tasks = ts\<rparr>"
    using assms by simp
  then show ?thesis
    using enter_complete [OF assms(1), of E s] by (simp only: exec_Cons exec_Nil)
qed

lemma waiters_served:
  "exec E (concat (map (\<lambda>i. [Wake i, Complete i]) [length pre..<length pre + k]))
        \<lparr>shared = s, locked = False, tasks = pre @ replicate k Waiting\<rparr>
     = \<lparr>shared = snd (serial E k s), locked = False,
        tasks = pre @ map Returned (fst (serial E k s))\<rparr>"
proof (induction k arbitrary: pre s)
  case 0
  show ?case by simp
next
  case (Suc k)
  obtain r s1 where g: "get_controller E s = (r, s1)" by (cases "get_controller E s")
  obtain rs s2 where t: "serial E k s1 = (rs, s2)" by (cases "serial E k s1")
  have u: "[length pre..<length pre + Suc k] = length pre # [length (pre @ [Returned r])..<length (pre @ [Returned r]) + k]"
    by (simp add: upt_conv_Cons)
  have w: "exec E [Wake (length pre), Complete (length pre)]
             \<lparr>shared = s, locked = False, tasks = pre @ replicate (Suc k) Waiting\<rparr>
           = \<lparr>shared = s1, locked = False, tasks = (pre @ [Returned r]) @ replicate k Waiting\<rparr>"
    using wake_complete [of "length pre" "pre @ replicate (Suc k) Waiting" E s] g
    by simp
  have "exec E (concat (map (\<lambda>i. [Wake i, Complete i]) [length pre..<length pre + Suc k]))
        \<lparr>shared = s, locked = False, tasks = pre @ replicate (Suc k) Waiting\<rparr>
      = exec E (concat (map (\<lambda>i. [Wake i, Complete i])
                  [length (pre @ [Returned r])..<length (pre @ [Returned r]) + k]))
          (exec E [Wake (length pre), Complete (length pre)]
             \<lparr>shared = s, locked = False, tasks = pre @ replicate (Suc k) Waiting\<rparr>)"
    unfolding u by (simp only: list.map concat.simps exec_append)
  also have "\<dots> = \<lparr>shared = snd (serial E k s1), locked = False,
        tasks = (pre @ [Returned r]) @ map Returned (fst (serial E k s1))\<rparr>"
    unfolding w by (rule Suc.IH)
  finally show ?case using g t by simp
qed

lemma callers_wait:
  "exec E (map Call [length pre..<length pre + k])
        \<lparr>shared = s, locked = True, tasks = pre @ replicate k Idle\<rparr>
     = \<lparr>shared = s, locked = True, tasks = pre @ replicate k Waiting\<rparr>"
proof (induction k arbitrary: pre)
  case 0
  show ?case by simp
next
  case (Suc k)
  have u: "[length pre..<length pre + Suc k] = length pre # [length (pre @ [Waiting])..<length (pre @ [Waiting]) + k]"
    by (simp add: upt_conv_Cons)
  have "exec E (map Call [length pre..<length pre + Suc k])
        \<lparr>shared = s, locked = True, tasks = pre @ replicate (Suc k) Idle\<rparr>
      = exec E (map Call [length (pre @ [Waiting])..<length (pre @ [Waiting]) + k])
          \<lparr>shared = s, locked = True, tasks = (pre @ [Waiting]) @ replicate k Idle\<rparr>"
    unfolding u by simp
  also have "\<dots> = \<lparr>shared = s, locked = True, tasks = (pre @ [Waiting]) @ replicate k Waiting\<rparr>"
    by (rule Suc.IH)
  finally show ?case by (simp add: replicate_app_Cons_same)
qed

lemma serial_present: "controller s = Some c \<Longrightarrow> serial E k s = (replicate k (Inr c), s)"
  by (induction k) (simp_all add: get_controller_def)

lemma serial_launched:
  assumes "controller s = None" and "launch_flexsim_sync E s = (Inr c, s1)"
  shows "serial E (Suc k) s = (replicate (Suc k) (Inr c), s1\<lparr>controller := Some c\<rparr>)"
  using assms by (simp add: get_controller_def serial_present)

lemma serial_failed:
  assumes "controller s = None" and "launch_flexsim_sync E s = (Inl e, s1)"
  shows "serial E (Suc k) s = (Inl e # fst (serial E k s1), snd (serial E k s1))"
  using assms by (simp add: get_controller_def split: prod.split)

text \<open>
  The first of \<open>k + 1\<close> simultaneous callers finds the lock free and no controller, and
  starts the launch; the others find the lock taken and wait; then the launch completes.
\<close>

lemma first_caller:
  "exec E (map Call [0..<Suc k] @ [Complete 0]) (fresh (Suc k))
     = \<lparr>shared = snd (get_controller E initial), locked = False,
        tasks = [Returned (fst (get_controller E initial))] @ replicate k Waiting\<rparr>"
proof -
  obtain r s' where l: "launch_flexsim_sync E initial = (r, s')"
    by (cases "launch_flexsim_sync E initial")
  have u: "[0..<Suc k] = 0 # [length [Launching r]..<length [Launching r] + k]"
    by (simp add: upt_conv_Cons)
  have c0: "step E (fresh (Suc k)) (Call 0)
      = \<lparr>shared = s', locked = True, tasks = [Launching r] @ replicate k Idle\<rparr>"
    using l by (simp add: fresh_def enter_def initial_def)
  have "exec E (map Call [0..<Suc k] @ [Complete 0]) (fresh (Suc k))
      = step E (exec E (map Call [length [Launching r]..<length [Launching r] + k])
                  (step E (fresh (Suc k)) (Call 0))) (Complete 0)"
    unfolding u by (simp add: exec_append)
  also have "\<dots> = step E \<lparr>shared = s', locked = True, tasks = [Launching r] @ replicate k Waiting\<rparr>
                      (Complete 0)"
    unfolding c0 by (simp only: callers_wait)
  also have "\<dots> = \<lparr>shared = snd (get_controller E initial), locked = False,
        tasks = [Returned (fst (get_controller E initial))] @ replicate k Waiting\<rparr>"
    using l by (cases r) (simp_all add: get_controller_def initial_def)
  finally show ?thesis .
qed

lemma simultaneous_serial:
  "exec E (simultaneous n) (fresh n)
     = \<lparr>shared = snd (serial E n initial), locked = False,
        tasks = map Returned (fst (serial E n initial))\<rparr>"
proof (cases n)
  case 0
  then show ?thesis by (simp add: simultaneous_def fresh_def initial_def)
next
  case (Suc k)
  obtain r s1 where g: "get_controller E initial = (r, s1)" by (cases "get_controller E initial")
  have "exec E (simultaneous (Suc k)) (fresh (Suc k))
      = exec E (concat (map (\<lambda>i. [Wake i, Complete i]) [length [Returned r]..<length [Returned r] + k]))
          (exec E (map Call [0..<Suc k] @ [Complete 0]) (fresh (Suc k)))"
    by (simp add: simultaneous_def exec_append del: upt_Suc)
  also have "\<dots> = \<lparr>shared = snd (serial E k s1), locked = False,
        tasks = [Returned r] @ map Returned (fst (serial E k s1))\<rparr>"
    unfolding first_caller g fst_conv snd_conv by (rule waiters_served)
  finally show ?thesis using Suc g by (simp split: prod.split)
qed

text \<open>
  C7, as the code has it. In every state that \<open>n\<close> tasks making their first calls can
  reach, whatever the order in which they are scheduled: at most one task is in the launch
  (the lock admits one at a time); all handles returned are the same one; the engine is
  only ever launched, every launch but the last one raised, so at most one launch
  succeeded; if no task has returned an exception there was at most one launch, and
  exactly one once a task has returned a handle.

  When the \<open>n\<close> first calls are simultaneous (every task calls before the first launch
  completes, and the waiting tasks get the lock one after the other), every task returns,
  the lock is free at the end, and the results and the session are those of \<open>n\<close> runs of
  \<open>get_controller\<close> one after the other. Of such runs: with a controller present each
  returns it and the session is unchanged; a run whose launch succeeds issues one launch,
  stores the handle, and it and all later runs return that handle; a run whose launch
  raises returns the exception, issues at most one launch and leaves the controller
  unset, so the next run initializes afresh. So when the first launch succeeds, \<open>n\<close>
  simultaneous first calls give one launch and \<open>n\<close> returns of its handle.
\<close>

theorem session_single_flight:
  assumes "p = exec E evs (fresh n)"
  shows "(\<forall>i j c d. i < n \<and> j < n \<and> tasks p ! i = Returned (Inr c)
             \<and> tasks p ! j = Returned (Inr d) \<longrightarrow> c = d)
       \<and> (\<forall>i j r q. i < n \<and> j < n \<and> tasks p ! i = Launching r
             \<and> tasks p ! j = Launching q \<longrightarrow> i = j)
       \<and> (\<forall>x \<in> set (log (shared p)). \<exists>d. x = Launch d)
       \<and> (\<forall>k. Suc k < length (log (shared p)) \<longrightarrow>
             cmd_reply E (take (Suc k) (log (shared p))) \<noteq> None)
       \<and> ((\<forall>i e. i < n \<longrightarrow> tasks p ! i \<noteq> Returned (Inl e)) \<longrightarrow> length (log (shared p)) \<le> 1)
       \<and> ((\<exists>i c. i < n \<and> tasks p ! i = Returned (Inr c)) \<longrightarrow> log (shared p) \<noteq> [])
       \<and> exec E (simultaneous n) (fresh n)
           = \<lparr>shared = snd (serial E n initial), locked = False,
              tasks = map Returned (fst (serial E n initial))\<rparr>
       \<and> (controller s = Some c \<longrightarrow> serial E k s = (replicate k (Inr c), s))
       \<and> (controller s = None \<and> launch_flexsim_sync E s = (Inr c, s1) \<longrightarrow>
            serial E (Suc k) s = (replicate (Suc k) (Inr c), s1\<lparr>controller := Some c\<rparr>)
            \<and> (\<exists>d. log s1 = log s @ [Launch d]))
       \<and> (controller s = None \<and> launch_flexsim_sync E s = (Inl e, s1) \<longrightarrow>
            serial E (Suc k) s = (Inl e # fst (serial E k s1), snd (serial E k s1))
            \<and> controller s1 = None
            \<and> (log s1 = log s \<or> (\<exists>d. log s1 = log s @ [Launch d])))
       \<and> (0 < n \<and> launch_flexsim_sync E initial = (Inr c0, s0) \<longrightarrow>
            exec E (simultaneous n) (fresh n)
              = \<lparr>shared = s0\<lparr>controller := Some c0\<rparr>, locked = False,
                 tasks = replicate n (Returned (Inr c0))\<rparr>
            \<and> (\<exists>d. log s0 = [Launch d]))"
proof -
  have inv: "invariant E p"
    unfolding assms by (rule invariant_exec [OF invariant_fresh])
  have len: "length (tasks p) = n" unfolding assms by (simp add: fresh_def)
  note D = invariantD [OF inv]
  have 1: "c = d" if "i < n" "j < n" "tasks p ! i = Returned (Inr c)"
    "tasks p ! j = Returned (Inr d)" for i j c d
    using D(4) [of i c] D(4) [of j d] that len by simp
  have 2: "i = j" if "i < n" "j < n" "tasks p ! i = Launching r" "tasks p ! j = Launching q"
    for i j r q
    using D(2) [of i j] that len by (simp add: launching_def)
  have 5: "length (log (shared p)) \<le> 1" if "\<forall>i e. i < n \<longrightarrow> tasks p ! i \<noteq> Returned (Inl e)"
  proof (rule ccontr)
    assume "\<not> length (log (shared p)) \<le> 1"
    then have "2 \<le> length (log (shared p))" by simp
    from D(10) [OF this] that len show False by (auto simp: failed_def)
  qed
  have 6: "log (shared p) \<noteq> []" if "\<exists>i c. i < n \<and> tasks p ! i = Returned (Inr c)"
  proof -
    from that obtain i c where "i < n" "tasks p ! i = Returned (Inr c)" by blast
    with D(4) [of i c] len have "controller (shared p) \<noteq> None" by simp
    with D(8) show ?thesis by blast
  qed
  have safety: "(\<forall>i j c d. i < n \<and> j < n \<and> tasks p ! i = Returned (Inr c)
             \<and> tasks p ! j = Returned (Inr d) \<longrightarrow> c = d)
       \<and> (\<forall>i j r q. i < n \<and> j < n \<and> tasks p ! i = Launching r
             \<and> tasks p ! j = Launching q \<longrightarrow> i = j)
       \<and> (\<forall>x \<in> set (log (shared p)). \<exists>d. x = Launch d)
       \<and> (\<forall>k. Suc k < length (log (shared p)) \<longrightarrow>
             cmd_reply E (take (Suc k) (log (shared p))) \<noteq> None)
       \<and> ((\<forall>i e. i < n \<longrightarrow> tasks p ! i \<noteq> Returned (Inl e)) \<longrightarrow> length (log (shared p)) \<le> 1)
       \<and> ((\<exists>i c. i < n \<and> tasks p ! i = Returned (Inr c)) \<longrightarrow> log (shared p) \<noteq> [])"
    using 1 2 5 6 D(5) D(6) by blast
  have 7: "exec E (simultaneous n) (fresh n)
           = \<lparr>shared = snd (serial E n initial), locked = False,
              tasks = map Returned (fst (serial E n initial))\<rparr>"
    by (rule simultaneous_serial)
  have 8: "controller s = Some c \<longrightarrow> serial E k s = (replicate k (Inr c), s)"
    by (simp add: serial_present)
  have 9: "controller s = None \<and> launch_flexsim_sync E s = (Inr c, s1) \<longrightarrow>
            serial E (Suc k) s = (replicate (Suc k) (Inr c), s1\<lparr>controller := Some c\<rparr>)
            \<and> (\<exists>d. log s1 = log s @ [Launch d])"
  proof (intro impI conjI)
    assume a: "controller s = None \<and> launch_flexsim_sync E s = (Inr c, s1)"
    then show "serial E (Suc k) s = (replicate (Suc k) (Inr c), s1\<lparr>controller := Some c\<rparr>)"
      by (intro serial_launched) simp_all
    from a launch_flexsim_sync_cases [of E s "Inr c" s1]
    show "\<exists>d. log s1 = log s @ [Launch d]" by auto
  qed
  have 10: "controller s = None \<and> launch_flexsim_sync E s = (Inl e, s1) \<longrightarrow>
            serial E (Suc k) s = (Inl e # fst (serial E k s1), snd (serial E k s1))
            \<and> controller s1 = None
            \<and> (log s1 = log s \<or> (\<exists>d. log s1 = log s @ [Launch d]))"
  proof (intro impI conjI)
    assume a: "controller s = None \<and> launch_flexsim_sync E s = (Inl e, s1)"
    then show "serial E (Suc k) s = (Inl e # fst (serial E k s1), snd (serial E k s1))"
      by (intro serial_failed) simp_all
    from a launch_flexsim_sync_cases [of E s "Inl e" s1]
    show "controller s1 = None" by simp
    from a launch_flexsim_sync_cases [of E s "Inl e" s1]
    show "log s1 = log s \<or> (\<exists>d. log s1 = log s @ [Launch d])" by auto
  qed
  have 11: "0 < n \<and> launch_flexsim_sync E initial = (Inr c0, s0) \<longrightarrow>
            exec E (simultaneous n) (fresh n)
              = \<lparr>shared = s0\<lparr>controller := Some c0\<rparr>, locked = False,
                 tasks = replicate n (Returned (Inr c0))\<rparr>
            \<and> (\<exists>d. log s0 = [Launch d])"
  proof (intro impI conjI)
    assume a: "0 < n \<and> launch_flexsim_sync E initial = (Inr c0, s0)"
    then obtain m where m: "n = Suc m" by (cases n) auto
    have "serial E (Suc m) initial = (replicate (Suc m) (Inr c0), s0\<lparr>controller := Some c0\<rparr>)"
      using a by (intro serial_launched) (simp_all add: initial_def)
    then have sr: "serial E n initial = (replicate n (Inr c0), s0\<lparr>controller := Some c0\<rparr>)"
      unfolding m .
    show "exec E (simultaneous n) (fresh n)
              = \<lparr>shared = s0\<lparr>controller := Some c0\<rparr>, locked = False,
                 tasks = replicate n (Returned (Inr c0))\<rparr>"
      unfolding 7 sr by simp
    from a launch_flexsim_sync_cases [of E initial "Inr c0" s0]
    show "\<exists>d. log s0 = [Launch d]" by (auto simp: initial_def)
  qed
  from safety 7 8 9 10 11 show ?thesis by blast
qed

lemma two_callers_run:
  "exec (double (\<lambda>h. None) (\<lambda>h. Inr 0) [str ''C:/FlexSim/program''])
        [Call 0, Call 1, Complete 0, Wake 1] (fresh 2)
     = \<lparr>shared = \<lparr>controller = Some 0, log = [Launch (str ''C:/FlexSim/program'')]\<rparr>,
        locked = False, tasks = [Returned (Inr 0), Returned (Inr 0)]\<rparr>"
  by code_simp

lemma launch_succeeds:
  "launch_flexsim_sync (double (\<lambda>h. None) (\<lambda>h. Inr 0) [str ''C:/FlexSim/program'']) initial
     = (Inr 0, \<lparr>controller = None, log = [Launch (str ''C:/FlexSim/program'')]\<rparr>)"
  by (simp add: launch_flexsim_sync_def FlexSimPy_launch_def Let_def double_simps initial_def)

lemma launch_raises:
  "launch_flexsim_sync (double first_launch_fails (\<lambda>h. Inr 0) [str ''C:/FlexSim/program'']) initial
     = (Inl license_expired, \<lparr>controller = None, log = [Launch (str ''C:/FlexSim/program'')]\<rparr>)"
  by (simp add: launch_flexsim_sync_def FlexSimPy_launch_def Let_def double_simps initial_def
      first_launch_fails_def license_expired_def)

theorem session_single_flight_witness:
  "tasks (exec (double (\<lambda>h. None) (\<lambda>h. Inr 0) [str ''C:/FlexSim/program''])
            [Call 0, Call 1, Complete 0, Wake 1] (fresh 2))
     = [Returned (Inr 0), Returned (Inr 0)]
   \<and> length (log (shared (exec (double (\<lambda>h. None) (\<lambda>h. Inr 0) [str ''C:/FlexSim/program''])
            [Call 0, Call 1, Complete 0, Wake 1] (fresh 2)))) \<le> 1
   \<and> log (shared (exec (double (\<lambda>h. None) (\<lambda>h. Inr 0) [str ''C:/FlexSim/program''])
            [Call 0, Call 1, Complete 0, Wake 1] (fresh 2))) \<noteq> []
   \<and> exec (double (\<lambda>h. None) (\<lambda>h. Inr 0) [str ''C:/FlexSim/program'']) (simultaneous 5) (fresh 5)
       = \<lparr>shared = \<lparr>controller = Some 0, log = [Launch (str ''C:/FlexSim/program'')]\<rparr>,
          locked = False, tasks = replicate 5 (Returned (Inr 0))\<rparr>
   \<and> serial (double first_launch_fails (\<lambda>h. Inr 0) [str ''C:/FlexSim/program'']) (Suc 2) initial
       = (Inl license_expired
            # fst (serial (double first_launch_fails (\<lambda>h. Inr 0) [str ''C:/FlexSim/program'']) 2
                    \<lparr>controller = None, log = [Launch (str ''C:/FlexSim/program'')]\<rparr>),
          snd (serial (double first_launch_fails (\<lambda>h. Inr 0) [str ''C:/FlexSim/program'']) 2
                    \<lparr>controller = None, log = [Launch (str ''C:/FlexSim/program'')]\<rparr>))"
proof -
  let ?E = "double (\<lambda>h. None) (\<lambda>h. Inr 0) [str ''C:/FlexSim/program'']"
  let ?F = "double first_launch_fails (\<lambda>h. Inr 0) [str ''C:/FlexSim/program'']"
  let ?p = "exec ?E [Call 0, Call 1, Complete 0, Wake 1] (fresh 2)"
  let ?s1 = "\<lparr>controller = None, log = [Launch (str ''C:/FlexSim/program'')]\<rparr>"
  have t: "tasks ?p = [Returned (Inr 0), Returned (Inr 0)]"
    by (subst two_callers_run) simp
  have nf: "\<forall>i e. i < 2 \<longrightarrow> tasks ?p ! i \<noteq> Returned (Inl e)"
    unfolding t by (auto simp: less_2_cases_iff)
  have h: "\<exists>i c. i < (2::nat) \<and> tasks ?p ! i = Returned (Inr c)"
    unfolding t by (intro exI [of _ 0]) simp
  have r: "?p = exec ?E [Call 0, Call 1, Complete 0, Wake 1] (fresh 2)" by (rule refl)
  have a: "length (log (shared ?p)) \<le> 1 \<and> log (shared ?p) \<noteq> []"
    using session_single_flight [OF r] nf h by blast
  have q: "fresh 5 = exec ?E [] (fresh 5)" by simp
  have b: "exec ?E (simultaneous 5) (fresh 5)
       = \<lparr>shared = \<lparr>controller = Some 0, log = [Launch (str ''C:/FlexSim/program'')]\<rparr>,
          locked = False, tasks = replicate 5 (Returned (Inr 0))\<rparr>"
  proof -
    have "0 < (5::nat) \<and> launch_flexsim_sync ?E initial = (Inr 0, ?s1)"
      using launch_succeeds by simp
    with session_single_flight [OF q, where ?c0.0 = 0 and ?s0.0 = ?s1]
    have "exec ?E (simultaneous 5) (fresh 5)
       = \<lparr>shared = ?s1\<lparr>controller := Some 0\<rparr>, locked = False,
          tasks = replicate 5 (Returned (Inr 0))\<rparr>"
      by blast
    then show ?thesis by simp
  qed
  have u: "fresh 0 = exec ?F [] (fresh 0)" by simp
  have c: "serial ?F (Suc 2) initial = (Inl license_expired # fst (serial ?F 2 ?s1), snd (serial ?F 2 ?s1))"
  proof -
    have "controller initial = None \<and> launch_flexsim_sync ?F initial = (Inl license_expired, ?s1)"
      using launch_raises by (simp add: initial_def)
    with session_single_flight [OF u, where s = initial and e = license_expired and ?s1.0 = ?s1
        and k = 2]
    show ?thesis by blast
  qed
  from t a b c show ?thesis by blast
qed

text \<open>
  The claim as stated fails when a launch raises: with two simultaneous first calls and
  an engine whose first launch raises and whose second succeeds, the first caller gets
  the exception, the second launches again and gets a handle. There are two
  initializations, and neither two returns of one handle nor two failures.
\<close>

theorem session_relaunch_counterexample:
  "exec (double first_launch_fails (\<lambda>h. Inr 0) [str ''C:/FlexSim/program''])
        [Call 0, Call 1, Complete 0, Wake 1, Complete 1] (fresh 2)
     = \<lparr>shared = \<lparr>controller = Some 1,
                   log = [Launch (str ''C:/FlexSim/program''), Launch (str ''C:/FlexSim/program'')]\<rparr>,
        locked = False,
        tasks = [Returned (Inl (Exn EngineError (str ''License expired''))), Returned (Inr 1)]\<rparr>
   \<and> simultaneous 2 = [Call 0, Call 1, Complete 0, Wake 1, Complete 1]"
  by code_simp

end
